theory Spec2Isabelle
  imports Complex_Main "HOL-Library.Product_Lexorder" "HOL-Library.Multiset"
begin

section \<open>Data model\<close>

text \<open>
  The pipeline's logic lives in the SQL statements that the three scripts send to the
  store. A table is modelled as the list of its rows, in the order in which a scan
  presents them; a NULL-able column is an \<open>option\<close>. Dates are day numbers,
  timestamps are integers.

  The columns \<open>source\<close>, \<open>price_type\<close> and \<open>value_cents\<close> of a snapshot are plain
  values: no writer under the sources stores a row without a price, and the
  specification calls the value null-free.
\<close>

type_synonym date = int
type_synonym timestamp = int

text \<open>
  The \<open>prices\<close> document of a Scryfall payload: \<open>prices->>'k'\<close> is the text of field
  \<open>k\<close>, and NULL when the field is missing or is a JSON null.
\<close>

type_synonym prices = "(string \<times> string option) list"

datatype raw_json =
    ScryfallRaw prices string   \<comment> \<open>\<open>jsonb_build_object('prices', prices, 'key', k)\<close>\<close>
  | OtherRaw string             \<comment> \<open>a payload written by another importer\<close>

text \<open>A row of \<open>public.market_price_snapshots\<close>.\<close>

record snapshot =
  market_item_id :: nat
  source :: string
  as_of_date :: date
  currency :: string
  price_type :: string
  condition :: "string option"
  value_cents :: int
  raw :: raw_json

section \<open>Daily price resolver (03\_build\_market\_price\_daily.js)\<close>

subsection \<open>Command line and WHERE clause\<close>

text \<open>
  The parsed arguments of the resolver. \<open>arg_all_dates\<close> is \<open>!!args["all-dates"]\<close>;
  the other options are absent (\<open>None\<close>) or carry their value. A date is a day
  number: an option given without a value, and a text that is not a date, for which the
  cast \<open>::date\<close> of the statement raises, are outside the model.
\<close>

record resolver_args =
  arg_currency :: "string option"
  arg_date :: "date option"
  arg_all_dates :: bool
  arg_since :: "date option"
  arg_until :: "date option"

definition upper_char :: "char \<Rightarrow> char" where
  "upper_char c =
     (case map_of (zip ''abcdefghijklmnopqrstuvwxyz'' ''ABCDEFGHIJKLMNOPQRSTUVWXYZ'') c of
        None \<Rightarrow> c | Some u \<Rightarrow> u)"

definition toUpperCase :: "string \<Rightarrow> string" where
  "toUpperCase s = map upper_char s"

text \<open>\<open>const currency = String(args.currency || "USD").toUpperCase()\<close>\<close>

definition currency_of :: "resolver_args \<Rightarrow> string" where
  "currency_of a = toUpperCase (case arg_currency a of None \<Rightarrow> ''USD'' | Some c \<Rightarrow> c)"

text \<open>\<open>const asOfDate = String(args.date || today)\<close>\<close>

definition asOfDate_of :: "date \<Rightarrow> resolver_args \<Rightarrow> date" where
  "asOfDate_of today a = (case arg_date a of None \<Rightarrow> today | Some d \<Rightarrow> d)"

text \<open>
  The conjunction built in \<open>whereParts\<close>: the currency always; the single date unless
  \<open>allDates\<close>; under \<open>allDates\<close> each bound that is present.
\<close>

definition where_clause :: "date \<Rightarrow> resolver_args \<Rightarrow> snapshot \<Rightarrow> bool" where
  "where_clause today a s =
     (currency s = currency_of a \<and>
      (if \<not> arg_all_dates a then as_of_date s = asOfDate_of today a
       else (case arg_since a of None \<Rightarrow> True | Some lo \<Rightarrow> lo \<le> as_of_date s) \<and>
            (case arg_until a of None \<Rightarrow> True | Some hi \<Rightarrow> as_of_date s \<le> hi)))"

subsection \<open>Ranking\<close>

definition source_rank :: "string \<Rightarrow> nat" where
  "source_rank s =
     (if s = ''tcgplayer'' then 10
      else if s = ''scryfall'' then 20
      else if s = ''cardmarket'' then 30
      else if s = ''pricecharting'' then 40
      else if s = ''ebay'' then 50
      else if s = ''amazon'' then 60
      else 99)"

definition price_type_rank :: "string \<Rightarrow> nat" where
  "price_type_rank t =
     (if t = ''market'' then 10
      else if t = ''trend'' then 12
      else if t = ''mid'' then 14
      else if t = ''avg_7d'' then 16
      else if t = ''avg_30d'' then 18
      else if t = ''low'' then 22
      else if t = ''high'' then 24
      else if t = ''loose'' then 30
      else if t = ''cib'' then 32
      else if t = ''new'' then 34
      else if t = ''graded'' then 36
      else if t = ''foil'' then 60
      else if t = ''etched'' then 62
      else if t = ''tix'' then 80
      else 90)"

definition known_sources :: "string list" where
  "known_sources =
     [''tcgplayer'', ''scryfall'', ''cardmarket'', ''pricecharting'', ''ebay'', ''amazon'']"

text \<open>
  The \<open>ORDER BY\<close> of the window: source rank ascending, price-type rank ascending,
  \<open>value_cents\<close> descending. The triple is compared lexicographically; the value is
  negated so that ascending order of the key is descending order of the value.
\<close>

definition order_key :: "snapshot \<Rightarrow> nat \<times> nat \<times> int" where
  "order_key s = (source_rank (source s), price_type_rank (price_type s), - value_cents s)"

text \<open>\<open>PARTITION BY s.market_item_id, s.currency, s.as_of_date\<close>\<close>

definition partition_key :: "snapshot \<Rightarrow> nat \<times> string \<times> date" where
  "partition_key s = (market_item_id s, currency s, as_of_date s)"

definition partition_rows :: "nat \<times> string \<times> date \<Rightarrow> snapshot list \<Rightarrow> snapshot list" where
  "partition_rows k rows = filter (\<lambda>s. partition_key s = k) rows"

text \<open>
  \<open>ROW_NUMBER() OVER (PARTITION BY ... ORDER BY ...)\<close>: every partition is sorted by
  the key and numbered from 1. The sort keeps rows with equal keys in the order in
  which they were presented: the statement names no further ordering column.
\<close>

fun number_from :: "nat \<Rightarrow> 'a list \<Rightarrow> ('a \<times> nat) list" where
  "number_from n [] = []"
| "number_from n (x # xs) = (x, n) # number_from (Suc n) xs"

definition number_rows :: "snapshot list \<Rightarrow> (snapshot \<times> nat) list" where
  "number_rows p = number_from 1 p"

definition row_number :: "snapshot list \<Rightarrow> (snapshot \<times> nat) list" where
  "row_number rows =
     concat (map (\<lambda>k. number_rows (sort_key order_key (partition_rows k rows)))
                 (remdups (map partition_key rows)))"

definition candidates :: "date \<Rightarrow> resolver_args \<Rightarrow> snapshot list \<Rightarrow> (snapshot \<times> nat) list" where
  "candidates today a tbl = row_number (filter (where_clause today a) tbl)"

text \<open>The rows of \<open>candidates\<close> with \<open>rn = 1\<close>.\<close>

definition winners :: "date \<Rightarrow> resolver_args \<Rightarrow> snapshot list \<Rightarrow> snapshot list" where
  "winners today a tbl = map fst (filter (\<lambda>(s, rn). rn = 1) (candidates today a tbl))"

text \<open>The head of a partition after sorting: the row that receives \<open>rn = 1\<close>.\<close>

definition first_of :: "snapshot list \<Rightarrow> snapshot list" where
  "first_of p = (case sort_key order_key p of [] \<Rightarrow> [] | w # _ \<Rightarrow> [w])"

subsection \<open>The emitted daily price\<close>

record source_used =
  su_source :: string
  su_price_type :: string
  su_condition :: "string option"
  su_value_cents :: int

text \<open>A row of \<open>public.market_price_daily\<close>.\<close>

record daily_price =
  dp_market_item_id :: nat
  dp_as_of_date :: date
  dp_currency :: string
  dp_value_cents :: int
  dp_confidence :: int
  dp_sources_used :: "source_used list"
  dp_method :: string
  dp_updated_at :: timestamp

definition daily_of :: "timestamp \<Rightarrow> snapshot \<Rightarrow> daily_price" where
  "daily_of now s =
     \<lparr> dp_market_item_id = market_item_id s,
       dp_as_of_date = as_of_date s,
       dp_currency = currency s,
       dp_value_cents = value_cents s,
       dp_confidence = 70,
       dp_sources_used =
         [\<lparr> su_source = source s, su_price_type = price_type s,
            su_condition = condition s, su_value_cents = value_cents s \<rparr>],
       dp_method = ''priority_best_of_day'',
       dp_updated_at = now \<rparr>"

definition best :: "timestamp \<Rightarrow> date \<Rightarrow> resolver_args \<Rightarrow> snapshot list \<Rightarrow> daily_price list" where
  "best now today a tbl = map (daily_of now) (winners today a tbl)"

definition daily_key :: "daily_price \<Rightarrow> nat \<times> date \<times> string" where
  "daily_key d = (dp_market_item_id d, dp_as_of_date d, dp_currency d)"

text \<open>
  \<open>INSERT ... ON CONFLICT (market_item_id, as_of_date, currency) DO UPDATE\<close>: a row
  whose key is present overwrites the stored row, any other row is added.
\<close>

fun upsert_daily :: "daily_price \<Rightarrow> daily_price list \<Rightarrow> daily_price list" where
  "upsert_daily d [] = [d]"
| "upsert_daily d (e # es) =
     (if daily_key e = daily_key d then d # es else e # upsert_daily d es)"

definition build_market_price_daily ::
    "timestamp \<Rightarrow> date \<Rightarrow> resolver_args \<Rightarrow> snapshot list \<Rightarrow> daily_price list \<Rightarrow> daily_price list" where
  "build_market_price_daily now today a tbl daily =
     fold upsert_daily (best now today a tbl) daily"


section \<open>Snapshot normalizer (02\_normalize\_scryfall\_prices.js)\<close>

subsection \<open>Source tables\<close>

text \<open>
  A row of \<open>public.market_items\<close> and a row of \<open>public.scryfall_cards_raw\<close>.
  \<open>scr_id\<close> is \<open>id::text\<close>. \<open>payload_prices\<close> is \<open>payload->'prices'\<close>, and \<open>None\<close>
  when \<open>payload ? 'prices'\<close> is false.
\<close>

record market_item =
  mi_id :: nat
  game :: string
  canonical_source :: string
  canonical_id :: string

record scryfall_card_raw =
  scr_id :: string
  payload_prices :: "prices option"

subsection \<open>Parsing one price field\<close>

text \<open>
  A statement of the store either returns or raises; a raised error aborts the whole
  statement.
\<close>

datatype sql_error =
    InvalidNumericSyntax string   \<comment> \<open>invalid input syntax for type numeric\<close>
  | NumericOverflow               \<comment> \<open>value overflows numeric format\<close>
  | IntegerOutOfRange             \<comment> \<open>integer out of range\<close>
  | NumericFieldOverflow          \<comment> \<open>numeric field overflow\<close>
  | ConnectionFailure             \<comment> \<open>the query was rejected for a reason outside the statement\<close>

text \<open>\<open>prices->>'k'\<close>\<close>

definition json_text :: "prices \<Rightarrow> string \<Rightarrow> string option" where
  "json_text pr k = (case map_of pr k of None \<Rightarrow> None | Some v \<Rightarrow> v)"

text \<open>\<open>regexp_replace(txt, '[^0-9.\-]', '', 'g')\<close>: every character other than a digit,
  a dot and a minus sign is removed.\<close>

definition regexp_replace_non_numeric :: "string \<Rightarrow> string" where
  "regexp_replace_non_numeric txt = filter (\<lambda>c. c \<in> set ''0123456789.-'') txt"

text \<open>\<open>NULLIF(x, '')\<close>\<close>

definition NULLIF_empty :: "string option \<Rightarrow> string option" where
  "NULLIF_empty x = (case x of None \<Rightarrow> None | Some s \<Rightarrow> if s = [] then None else Some s)"

text \<open>
  A value of type \<open>numeric\<close> is a decimal: \<open>unscaled / 10 ^ scale\<close>.
\<close>

record numeric =
  unscaled :: int
  scale :: nat

definition is_digit :: "char \<Rightarrow> bool" where
  "is_digit c = (c \<in> set ''0123456789'')"

definition digit_value :: "char \<Rightarrow> nat" where
  "digit_value c = length (takeWhile (\<lambda>d. d \<noteq> c) ''0123456789'')"

definition digits_value :: "string \<Rightarrow> nat" where
  "digits_value ds = foldl (\<lambda>n c. 10 * n + digit_value c) 0 ds"

text \<open>
  The cast \<open>::numeric\<close> of a text over the alphabet that the replacement leaves: an
  optional minus sign, digits, optionally a dot and digits, with at least one digit in
  all. Every other text raises. The type holds at most 131072 digits before and 16383
  digits after the decimal point.
\<close>

definition numeric_in :: "string \<Rightarrow> sql_error + numeric" where
  "numeric_in s =
     (let neg = (s \<noteq> [] \<and> hd s = CHR ''-'');
          body = (if neg then tl s else s);
          ip = takeWhile is_digit body;
          rest = dropWhile is_digit body;
          fp = (if rest = [] then [] else tl rest)
      in if (rest = [] \<or> hd rest = CHR ''.'' \<and> list_all is_digit fp) \<and> (ip \<noteq> [] \<or> fp \<noteq> [])
         then if length (dropWhile (\<lambda>c. c = CHR ''0'') ip) > 131072 \<or> length fp > 16383
              then Inl NumericOverflow
              else Inr \<lparr> unscaled = (if neg then - 1 else 1) * int (digits_value (ip @ fp)),
                         scale = length fp \<rparr>
         else Inl (InvalidNumericSyntax s))"

definition numeric_times_100 :: "numeric \<Rightarrow> numeric" where
  "numeric_times_100 n = n\<lparr>unscaled := unscaled n * 100\<rparr>"

text \<open>\<open>ROUND\<close> of a numeric: to the nearest integer, ties away from zero.\<close>

definition ROUND :: "numeric \<Rightarrow> int" where
  "ROUND n =
     (let p = 10 ^ scale n; q = (2 * \<bar>unscaled n\<bar> + p) div (2 * p)
      in if unscaled n < 0 then - q else q)"

text \<open>The cast \<open>::int\<close> to a 32-bit integer.\<close>

definition int4 :: "int \<Rightarrow> sql_error + int" where
  "int4 v = (if - 2147483648 \<le> v \<and> v \<le> 2147483647 then Inr v else Inl IntegerOutOfRange)"

text \<open>
  The \<open>CASE\<close> expression of one field: NULL when the cleaned text is NULL or empty,
  otherwise the cleaned text cast to numeric, times 100, rounded, cast to int.
\<close>

definition value_cents_of :: "string option \<Rightarrow> sql_error + int option" where
  "value_cents_of txt =
     (case NULLIF_empty (map_option regexp_replace_non_numeric txt) of
        None \<Rightarrow> Inr None
      | Some s \<Rightarrow>
          (case numeric_in s of
             Inl e \<Rightarrow> Inl e
           | Inr n \<Rightarrow>
               (case int4 (ROUND (numeric_times_100 n)) of
                  Inl e \<Rightarrow> Inl e
                | Inr v \<Rightarrow> Inr (Some v))))"

subsection \<open>The rows of one run (buildRowsCte)\<close>

text \<open>The results of a list of evaluations, or the first error raised.\<close>

fun collect :: "('e + 'a) list \<Rightarrow> 'e + 'a list" where
  "collect [] = Inr []"
| "collect (x # xs) =
     (case x of
        Inl e \<Rightarrow> Inl e
      | Inr v \<Rightarrow> (case collect xs of Inl e \<Rightarrow> Inl e | Inr vs \<Rightarrow> Inr (v # vs)))"

text \<open>
  The CTE \<open>src\<close>: the items of game \<open>mtg\<close> with canonical source \<open>scryfall\<close>, joined
  with the cards whose id is the item's canonical id and whose payload has prices.
\<close>

definition matching_cards :: "market_item \<Rightarrow> scryfall_card_raw list \<Rightarrow> (nat \<times> prices) list" where
  "matching_cards mi scrs =
     concat (map (\<lambda>scr.
       (case payload_prices scr of
          None \<Rightarrow> []
        | Some pr \<Rightarrow>
            if scr_id scr = canonical_id mi \<and> game mi = ''mtg'' \<and>
               canonical_source mi = ''scryfall''
            then [(mi_id mi, pr)] else [])) scrs)"

definition src_cte :: "market_item list \<Rightarrow> scryfall_card_raw list \<Rightarrow> (nat \<times> prices) list" where
  "src_cte mis scrs = concat (map (\<lambda>mi. matching_cards mi scrs) mis)"

text \<open>The five tuples of the \<open>VALUES\<close> list: field, currency, price type.\<close>

definition price_fields :: "(string \<times> string \<times> string) list" where
  "price_fields =
     [(''usd'', ''USD'', ''market''),
      (''usd_foil'', ''USD'', ''foil''),
      (''usd_etched'', ''USD'', ''etched''),
      (''eur'', ''EUR'', ''market''),
      (''tix'', ''USD'', ''tix'')]"

definition value_tuple ::
    "prices \<Rightarrow> string \<times> string \<times> string \<Rightarrow> sql_error + (string \<times> string \<times> int option \<times> raw_json)" where
  "value_tuple pr f =
     (case f of (k, cur, pt) \<Rightarrow>
        (case value_cents_of (json_text pr k) of
           Inl e \<Rightarrow> Inl e
         | Inr v \<Rightarrow> Inr (cur, pt, v, ScryfallRaw pr k)))"

definition lateral_values ::
    "prices \<Rightarrow> sql_error + (string \<times> string \<times> int option \<times> raw_json) list" where
  "lateral_values pr = collect (map (value_tuple pr) price_fields)"

text \<open>\<open>WHERE v.value_cents IS NOT NULL AND v.value_cents > 0\<close>, and the selected columns.\<close>

definition select_rows ::
    "nat \<Rightarrow> date \<Rightarrow> (string \<times> string \<times> int option \<times> raw_json) list \<Rightarrow> snapshot list" where
  "select_rows i d vs =
     concat (map (\<lambda>(cur, pt, v, rw).
       (case v of
          None \<Rightarrow> []
        | Some c \<Rightarrow>
            if c > 0
            then [\<lparr> market_item_id = i, source = ''scryfall'', as_of_date = d, currency = cur,
                     price_type = pt, condition = None, value_cents = c, raw = rw \<rparr>]
            else [])) vs)"

definition rows_of_item :: "date \<Rightarrow> nat \<times> prices \<Rightarrow> sql_error + snapshot list" where
  "rows_of_item d x =
     (case x of (i, pr) \<Rightarrow>
        (case lateral_values pr of Inl e \<Rightarrow> Inl e | Inr vs \<Rightarrow> Inr (select_rows i d vs)))"

definition rows_cte ::
    "date \<Rightarrow> market_item list \<Rightarrow> scryfall_card_raw list \<Rightarrow> sql_error + snapshot list" where
  "rows_cte d mis scrs =
     (case collect (map (rows_of_item d) (src_cte mis scrs)) of
        Inl e \<Rightarrow> Inl e
      | Inr rs \<Rightarrow> Inr (concat rs))"

subsection \<open>The two statements\<close>

text \<open>
  The identity key of a snapshot; \<open>IS NOT DISTINCT FROM\<close> on the condition is equality
  of the optional values.
\<close>

definition ident :: "snapshot \<Rightarrow> nat \<times> string \<times> date \<times> string \<times> string \<times> string option" where
  "ident s = (market_item_id s, source s, as_of_date s, currency s, price_type s, condition s)"

text \<open>
  \<open>UPDATE ... SET value_cents = r.value_cents, raw = r.raw FROM rows r WHERE\<close> the keys
  match: every stored row with a matching computed row takes its value and payload.
  Where several computed rows match one stored row the store uses one of them; the
  model uses the first. The count is the number of stored rows updated.
\<close>

definition update_rows :: "snapshot list \<Rightarrow> snapshot list \<Rightarrow> snapshot list \<times> nat" where
  "update_rows rows tbl =
     (map (\<lambda>t. case find (\<lambda>r. ident t = ident r) rows of
                 None \<Rightarrow> t
               | Some r \<Rightarrow> t\<lparr>value_cents := value_cents r, raw := raw r\<rparr>) tbl,
      length (filter (\<lambda>t. \<exists>r \<in> set rows. ident t = ident r) tbl))"

text \<open>
  \<open>INSERT ... SELECT ... FROM rows r WHERE NOT EXISTS\<close> a stored row with the key of
  \<open>r\<close>. The count is the number of rows inserted.
\<close>

definition insert_rows :: "snapshot list \<Rightarrow> snapshot list \<Rightarrow> snapshot list \<times> nat" where
  "insert_rows rows tbl =
     (tbl @ filter (\<lambda>r. \<not> (\<exists>t \<in> set tbl. ident t = ident r)) rows,
      length (filter (\<lambda>r. \<not> (\<exists>t \<in> set tbl. ident t = ident r)) rows))"

definition updateSql ::
    "date \<Rightarrow> market_item list \<Rightarrow> scryfall_card_raw list \<Rightarrow> snapshot list \<Rightarrow>
     sql_error + snapshot list \<times> nat" where
  "updateSql d mis scrs tbl =
     (case rows_cte d mis scrs of Inl e \<Rightarrow> Inl e | Inr rows \<Rightarrow> Inr (update_rows rows tbl))"

definition insertSql ::
    "date \<Rightarrow> market_item list \<Rightarrow> scryfall_card_raw list \<Rightarrow> snapshot list \<Rightarrow>
     sql_error + snapshot list \<times> nat" where
  "insertSql d mis scrs tbl =
     (case rows_cte d mis scrs of Inl e \<Rightarrow> Inl e | Inr rows \<Rightarrow> Inr (insert_rows rows tbl))"

subsection \<open>The transaction\<close>

text \<open>
  The snapshot table as the store holds it: the committed rows, and the rows as the open
  transaction sees them (\<open>None\<close> when no transaction is open).
\<close>

record store =
  committed :: "snapshot list"
  pending :: "snapshot list option"

text \<open>
  The five \<open>client.query\<close> calls of \<open>main\<close>. A \<open>faults\<close> function tells which of them
  are rejected for a reason outside the statement (a lost connection, say).
\<close>

datatype step = Begin | Update | Insert | Commit | Rollback

type_synonym faults = "step \<Rightarrow> bool"

definition query_begin :: "faults \<Rightarrow> store \<Rightarrow> sql_error + store" where
  "query_begin f st =
     (if f Begin then Inl ConnectionFailure else Inr (st\<lparr>pending := Some (committed st)\<rparr>))"

text \<open>A statement runs on the rows the transaction sees; outside a transaction it commits
  at once.\<close>

definition query_statement ::
    "faults \<Rightarrow> step \<Rightarrow> (snapshot list \<Rightarrow> sql_error + snapshot list \<times> nat) \<Rightarrow> store \<Rightarrow>
     sql_error + store \<times> nat" where
  "query_statement f stp q st =
     (if f stp then Inl ConnectionFailure
      else (case pending st of
              Some t \<Rightarrow>
                (case q t of Inl e \<Rightarrow> Inl e | Inr (t', n) \<Rightarrow> Inr (st\<lparr>pending := Some t'\<rparr>, n))
            | None \<Rightarrow>
                (case q (committed st) of
                   Inl e \<Rightarrow> Inl e
                 | Inr (t', n) \<Rightarrow> Inr (st\<lparr>committed := t'\<rparr>, n))))"

definition query_commit :: "faults \<Rightarrow> store \<Rightarrow> sql_error + store" where
  "query_commit f st =
     (if f Commit then Inl ConnectionFailure
      else Inr (case pending st of
                  None \<Rightarrow> st
                | Some t \<Rightarrow> \<lparr> committed = t, pending = None \<rparr>))"

definition query_rollback :: "faults \<Rightarrow> store \<Rightarrow> sql_error + store" where
  "query_rollback f st =
     (if f Rollback then Inl ConnectionFailure else Inr (st\<lparr>pending := None\<rparr>))"

text \<open>Closing the connection, or the exit of the process, discards an open transaction.\<close>

definition client_end :: "store \<Rightarrow> store" where
  "client_end st = st\<lparr>pending := None\<rparr>"

text \<open>
  The body of \<open>try\<close>: the update, then the insert on its result, then the commit. An
  error is returned with the store as it was when the error was raised.
\<close>

definition try_block ::
    "faults \<Rightarrow> date \<Rightarrow> market_item list \<Rightarrow> scryfall_card_raw list \<Rightarrow> store \<Rightarrow>
     (sql_error \<times> store) + (store \<times> nat \<times> nat)" where
  "try_block f d mis scrs st1 =
     (case query_statement f Update (updateSql d mis scrs) st1 of
        Inl e \<Rightarrow> Inl (e, st1)
      | Inr (st2, upd) \<Rightarrow>
          (case query_statement f Insert (insertSql d mis scrs) st2 of
             Inl e \<Rightarrow> Inl (e, st2)
           | Inr (st3, ins) \<Rightarrow>
               (case query_commit f st3 of
                  Inl e \<Rightarrow> Inl (e, st3)
                | Inr st4 \<Rightarrow> Inr (st4, upd, ins))))"

text \<open>
  \<open>main\<close>, with the date argument already resolved. The result is the exit code of the
  process, the two row counts it printed (on success), and the store it leaves.
  \<open>BEGIN\<close> is outside \<open>try\<close>: its rejection reaches the final \<open>catch\<close>, which exits
  with 1. An error inside \<open>try\<close> is followed by \<open>ROLLBACK\<close> in \<open>catch\<close> and by
  \<open>client.end()\<close> in \<open>finally\<close>, and is rethrown to the final \<open>catch\<close>.
\<close>

definition normalize_main ::
    "faults \<Rightarrow> date \<Rightarrow> market_item list \<Rightarrow> scryfall_card_raw list \<Rightarrow> store \<Rightarrow>
     nat \<times> (nat \<times> nat) option \<times> store" where
  "normalize_main f d mis scrs st0 =
     (case query_begin f st0 of
        Inl e \<Rightarrow> (1, None, client_end st0)
      | Inr st1 \<Rightarrow>
          (case try_block f d mis scrs st1 of
             Inr (st4, upd, ins) \<Rightarrow> (0, Some (upd, ins), client_end st4)
           | Inl (e, st) \<Rightarrow>
               (case query_rollback f st of
                  Inl e' \<Rightarrow> (1, None, client_end st)
                | Inr st' \<Rightarrow> (1, None, client_end st'))))"

definition no_faults :: faults where
  "no_faults stp = False"

text \<open>\<open>const asOfDate = String(args.date || "").trim() || todayUtcYmd()\<close>\<close>

definition normalizer_date :: "date \<Rightarrow> date option \<Rightarrow> date" where
  "normalizer_date today arg = (case arg of None \<Rightarrow> today | Some d \<Rightarrow> d)"

text \<open>The tuples that pass the \<open>WHERE\<close> of \<open>rows\<close>.\<close>

definition kept :: "string \<times> string \<times> int option \<times> raw_json \<Rightarrow> bool" where
  "kept v = (case fst (snd (snd v)) of None \<Rightarrow> False | Some c \<Rightarrow> c > 0)"

text \<open>The table after the update and the insert of one run.\<close>

definition written :: "snapshot list \<Rightarrow> snapshot list \<Rightarrow> snapshot list" where
  "written rows tbl = fst (insert_rows rows (fst (update_rows rows tbl)))"

text \<open>A store with no open transaction.\<close>

definition fresh :: "snapshot list \<Rightarrow> store" where
  "fresh tbl = \<lparr> committed = tbl, pending = None \<rparr>"

section \<open>Sale-comp rollup (10\_rollup\_market\_values\_daily.mjs)\<close>

subsection \<open>The window and its groups\<close>

text \<open>
  A row of \<open>public.market_sales_comps\<close>, its four columns taken as never NULL.
  Prices are exact rationals: the arithmetic of the statement is modelled without
  rounding error. Timestamps count seconds.
\<close>

record sale_comp =
  card_key :: string
  grade :: string
  sold_price_usd :: rat
  sold_at :: timestamp

definition interval_180_days :: int where
  "interval_180_days = 180 * 86400"

text \<open>\<open>WHERE sold_at >= now() - interval '180 days'\<close>\<close>

definition recent :: "timestamp \<Rightarrow> sale_comp list \<Rightarrow> sale_comp list" where
  "recent now comps = filter (\<lambda>r. now - interval_180_days \<le> sold_at r) comps"

text \<open>\<open>GROUP BY card_key, grade\<close>\<close>

definition group_key :: "sale_comp \<Rightarrow> string \<times> string" where
  "group_key r = (card_key r, grade r)"

definition group_rows :: "string \<times> string \<Rightarrow> sale_comp list \<Rightarrow> sale_comp list" where
  "group_rows k rs = filter (\<lambda>r. group_key r = k) rs"

subsection \<open>Aggregates\<close>

text \<open>
  \<open>percentile_cont(fraction) WITHIN GROUP (ORDER BY v)\<close>: with the \<open>N\<close> values sorted
  and numbered from 0, the position is \<open>fraction * (N - 1)\<close>; the result is the value
  of the row at the position when that is a whole number, and otherwise lies between
  the rows below and above it, in proportion to the fractional part. NULL for no rows.
\<close>

definition percentile_cont :: "rat \<Rightarrow> rat list \<Rightarrow> rat option" where
  "percentile_cont fraction vs =
     (if vs = [] then None
      else (let xs = sort vs;
                pos = fraction * of_nat (length xs - 1);
                first_row = nat \<lfloor>pos\<rfloor>;
                second_row = nat \<lceil>pos\<rceil>
            in if first_row = second_row then Some (xs ! first_row)
               else Some (xs ! first_row +
                          (pos - of_nat first_row) * (xs ! second_row - xs ! first_row))))"

text \<open>\<open>MAX(sold_at)\<close>\<close>

definition sql_max :: "int list \<Rightarrow> int option" where
  "sql_max xs = (case xs of [] \<Rightarrow> None | x # r \<Rightarrow> Some (fold max r x))"

text \<open>A row of the CTE \<open>stats\<close>.\<close>

record stats_row =
  st_card_key :: string
  st_grade :: string
  median_price :: "rat option"
  p25 :: "rat option"
  p75 :: "rat option"
  cnt :: nat
  st_last_sale_at :: "timestamp option"

definition stats_of :: "string \<times> string \<Rightarrow> sale_comp list \<Rightarrow> stats_row" where
  "stats_of k g =
     \<lparr> st_card_key = fst k,
       st_grade = snd k,
       median_price = percentile_cont (1 / 2) (map sold_price_usd g),
       p25 = percentile_cont (1 / 4) (map sold_price_usd g),
       p75 = percentile_cont (3 / 4) (map sold_price_usd g),
       cnt = length g,
       st_last_sale_at = sql_max (map sold_at g) \<rparr>"

definition stats :: "sale_comp list \<Rightarrow> stats_row list" where
  "stats rs = map (\<lambda>k. stats_of k (group_rows k rs)) (remdups (map group_key rs))"

subsection \<open>The selected rows\<close>

text \<open>
  The subquery of \<open>last_sale_usd\<close>: the rows of the group ordered by \<open>sold_at DESC\<close>,
  \<open>LIMIT 1\<close>. Rows with equal timestamps stay in the order in which they were
  presented: the statement names no further ordering column.
\<close>

definition last_sale_price :: "string \<times> string \<Rightarrow> sale_comp list \<Rightarrow> rat option" where
  "last_sale_price k rs =
     (case sort_key (\<lambda>r. - sold_at r) (group_rows k rs) of
        [] \<Rightarrow> None
      | r # _ \<Rightarrow> Some (sold_price_usd r))"

text \<open>
  The cast \<open>::numeric(12,2)\<close>: rounded to two decimals, ties away from zero; a value of
  more than ten digits before the decimal point raises.
\<close>

definition round_half_away :: "rat \<Rightarrow> int" where
  "round_half_away x = (if 0 \<le> x then \<lfloor>x + 1 / 2\<rfloor> else - \<lfloor>- x + 1 / 2\<rfloor>)"

definition round2 :: "rat \<Rightarrow> rat" where
  "round2 x = of_int (round_half_away (x * 100)) / 100"

definition numeric_12_2 :: "rat option \<Rightarrow> sql_error + rat option" where
  "numeric_12_2 x =
     (case x of
        None \<Rightarrow> Inr None
      | Some v \<Rightarrow> if \<bar>round2 v\<bar> < 10 ^ 10 then Inr (Some (round2 v)) else Inl NumericFieldOverflow)"

definition confidence_of :: "nat \<Rightarrow> string" where
  "confidence_of c =
     (if c \<ge> 10 then ''A''
      else if c \<ge> 5 then ''B''
      else if c \<ge> 2 then ''C''
      else ''D'')"

text \<open>A row of \<open>public.market_values_daily\<close>.\<close>

record market_value =
  mv_as_of_date :: date
  mv_card_key :: string
  mv_grade :: string
  market_value_usd :: "rat option"
  range_low_usd :: "rat option"
  range_high_usd :: "rat option"
  last_sale_usd :: "rat option"
  last_sale_at :: "timestamp option"
  sales_count_180d :: nat
  confidence :: string

text \<open>The \<open>SELECT\<close> list for one row \<open>s\<close> of \<open>stats\<close>; \<open>rs\<close> is \<open>recent\<close>.\<close>

definition select_value :: "date \<Rightarrow> sale_comp list \<Rightarrow> stats_row \<Rightarrow> sql_error + market_value" where
  "select_value today rs s =
     (case numeric_12_2 (median_price s) of
        Inl e \<Rightarrow> Inl e
      | Inr m \<Rightarrow>
     (case numeric_12_2 (p25 s) of
        Inl e \<Rightarrow> Inl e
      | Inr lo \<Rightarrow>
     (case numeric_12_2 (p75 s) of
        Inl e \<Rightarrow> Inl e
      | Inr hi \<Rightarrow>
     (case numeric_12_2 (last_sale_price (st_card_key s, st_grade s) rs) of
        Inl e \<Rightarrow> Inl e
      | Inr ls \<Rightarrow>
          Inr \<lparr> mv_as_of_date = today,
                mv_card_key = st_card_key s,
                mv_grade = st_grade s,
                market_value_usd = m,
                range_low_usd = lo,
                range_high_usd = hi,
                last_sale_usd = ls,
                last_sale_at = st_last_sale_at s,
                sales_count_180d = cnt s,
                confidence = confidence_of (cnt s) \<rparr>))))"

definition rollup_select ::
    "date \<Rightarrow> timestamp \<Rightarrow> sale_comp list \<Rightarrow> sql_error + market_value list" where
  "rollup_select today now comps =
     collect (map (select_value today (recent now comps)) (stats (recent now comps)))"

definition value_key :: "market_value \<Rightarrow> date \<times> string \<times> string" where
  "value_key v = (mv_as_of_date v, mv_card_key v, mv_grade v)"

text \<open>\<open>ON CONFLICT (as_of_date, card_key, grade) DO UPDATE\<close>\<close>

fun upsert_value :: "market_value \<Rightarrow> market_value list \<Rightarrow> market_value list" where
  "upsert_value v [] = [v]"
| "upsert_value v (e # es) =
     (if value_key e = value_key v then v # es else e # upsert_value v es)"

text \<open>
  \<open>main\<close>: the one statement, and the exit code of the process. The statement runs
  on its own, so an error leaves the table as it was.
\<close>

definition rollup_main ::
    "date \<Rightarrow> timestamp \<Rightarrow> sale_comp list \<Rightarrow> market_value list \<Rightarrow> nat \<times> market_value list" where
  "rollup_main today now comps tbl =
     (case rollup_select today now comps of
        Inl e \<Rightarrow> (1, tbl)
      | Inr rows \<Rightarrow> (0, fold upsert_value rows tbl))"

section \<open>Example data\<close>

definition snap ::
    "nat \<Rightarrow> string \<Rightarrow> date \<Rightarrow> string \<Rightarrow> string \<Rightarrow> string option \<Rightarrow> int \<Rightarrow> snapshot" where
  "snap i src d c t cond v =
     \<lparr> market_item_id = i, source = src, as_of_date = d, currency = c, price_type = t,
       condition = cond, value_cents = v, raw = OtherRaw [] \<rparr>"

definition no_args :: resolver_args where
  "no_args = \<lparr> arg_currency = None, arg_date = None, arg_all_dates = False,
               arg_since = None, arg_until = None \<rparr>"

definition mi1 :: market_item where
  "mi1 = \<lparr> mi_id = 1, game = ''mtg'', canonical_source = ''scryfall'', canonical_id = ''a'' \<rparr>"

definition mi2 :: market_item where
  "mi2 = \<lparr> mi_id = 2, game = ''mtg'', canonical_source = ''scryfall'', canonical_id = ''b'' \<rparr>"

definition card_a :: scryfall_card_raw where
  "card_a = \<lparr> scr_id = ''a'',
      payload_prices = Some [(''usd'', Some ''1.23''), (''usd_foil'', None), (''eur'', Some ''0.98'')] \<rparr>"

definition card_b :: scryfall_card_raw where
  "card_b = \<lparr> scr_id = ''b'', payload_prices = Some [(''usd'', Some ''-''), (''eur'', Some ''2.00'')] \<rparr>"

definition rows_a :: "snapshot list" where
  "rows_a =
     [\<lparr> market_item_id = 1, source = ''scryfall'', as_of_date = 100, currency = ''USD'',
        price_type = ''market'', condition = None, value_cents = 123,
        raw = ScryfallRaw [(''usd'', Some ''1.23''), (''usd_foil'', None), (''eur'', Some ''0.98'')]
                ''usd'' \<rparr>,
      \<lparr> market_item_id = 1, source = ''scryfall'', as_of_date = 100, currency = ''EUR'',
        price_type = ''market'', condition = None, value_cents = 98,
        raw = ScryfallRaw [(''usd'', Some ''1.23''), (''usd_foil'', None), (''eur'', Some ''0.98'')]
                ''eur'' \<rparr>]"

definition sale :: "rat \<Rightarrow> timestamp \<Rightarrow> sale_comp" where
  "sale p t = \<lparr> card_key = ''base1-4'', grade = ''PSA 9'', sold_price_usd = p, sold_at = t \<rparr>"

definition row4 :: market_value where
  "row4 = \<lparr> mv_as_of_date = 7, mv_card_key = ''base1-4'', mv_grade = ''PSA 9'',
      market_value_usd = Some 25, range_low_usd = Some (35 / 2), range_high_usd = Some (65 / 2),
      last_sale_usd = Some 40, last_sale_at = Some 4, sales_count_180d = 4, confidence = ''C'' \<rparr>"

definition tied_row :: "rat \<Rightarrow> market_value" where
  "tied_row p = \<lparr> mv_as_of_date = 7, mv_card_key = ''base1-4'', mv_grade = ''PSA 9'',
      market_value_usd = Some 15, range_low_usd = Some (25 / 2), range_high_usd = Some (35 / 2),
      last_sale_usd = Some p, last_sale_at = Some 5, sales_count_180d = 2, confidence = ''C'' \<rparr>"

lemmas parse_defs =
  value_cents_of_def NULLIF_empty_def regexp_replace_non_numeric_def numeric_in_def
  is_digit_def digit_value_def digits_value_def numeric_times_100_def ROUND_def int4_def Let_def

lemmas normalizer_defs =
  rows_cte_def src_cte_def matching_cards_def rows_of_item_def lateral_values_def value_tuple_def
  price_fields_def select_rows_def json_text_def normalize_main_def query_begin_def
  query_statement_def query_commit_def query_rollback_def client_end_def try_block_def
  updateSql_def insertSql_def update_rows_def insert_rows_def ident_def no_faults_def fresh_def

lemmas example_defs =
  snap_def no_args_def where_clause_def currency_of_def asOfDate_of_def toUpperCase_def
  upper_char_def partition_key_def source_rank_def price_type_rank_def

section \<open>Properties of the daily price resolver\<close>

lemma sort_key_head:
  assumes "p \<noteq> []"
  shows "\<exists>w q. sort_key f p = w # q \<and> w \<in> set p \<and> (\<forall>s \<in> set p. f w \<le> f s)"
proof -
  obtain w q where wq: "sort_key f p = w # q"
    using assms by (cases "sort_key f p") (auto dest: arg_cong[where f = length])
  have "sorted (map f (w # q))" using sorted_sort_key[of f p] wq by simp
  then have "\<forall>s \<in> set (w # q). f w \<le> f s" by auto
  moreover have "set (w # q) = set p" using set_sort[of f p] wq by simp
  ultimately show ?thesis using wq by auto
qed

lemma number_from_later:
  "1 < n \<Longrightarrow> filter (\<lambda>(s, rn). rn = 1) (number_from n p) = []"
  by (induction p arbitrary: n) auto

lemma number_rows_first:
  "filter (\<lambda>(s, rn). rn = 1) (number_rows p) = (case p of [] \<Rightarrow> [] | w # _ \<Rightarrow> [(w, 1)])"
  using number_from_later[of "Suc 1"] by (cases p) (auto simp: number_rows_def)

lemma winners_concat:
  "winners today a tbl =
     concat (map (\<lambda>k. first_of (partition_rows k (filter (where_clause today a) tbl)))
                 (remdups (map partition_key (filter (where_clause today a) tbl))))"
proof -
  have "map fst (filter (\<lambda>(s, rn). rn = 1) (number_rows (sort_key order_key p))) = first_of p" for p
    unfolding number_rows_first first_of_def by (simp split: list.split)
  then show ?thesis
    unfolding winners_def candidates_def row_number_def filter_concat map_concat
    by (simp add: comp_def)
qed

lemma first_of_min:
  assumes "p \<noteq> []"
  shows "\<exists>w. first_of p = [w] \<and> w \<in> set p \<and> (\<forall>s \<in> set p. order_key w \<le> order_key s)"
proof -
  obtain w q where "sort_key order_key p = w # q" "w \<in> set p"
      "\<forall>s \<in> set p. order_key w \<le> order_key s"
    using sort_key_head[OF assms] by blast
  then show ?thesis by (auto simp: first_of_def)
qed

lemma first_of_key:
  "x \<in> set (first_of (partition_rows k rows)) \<Longrightarrow> partition_key x = k"
proof -
  assume a: "x \<in> set (first_of (partition_rows k rows))"
  have "set (first_of p) \<subseteq> set p" for p
  proof (cases "sort_key order_key p")
    case Nil
    then show ?thesis by (simp add: first_of_def)
  next
    case (Cons w q)
    then have "w \<in> set p" by (metis list.set_intros(1) set_sort)
    then show ?thesis using Cons by (simp add: first_of_def)
  qed
  with a have "x \<in> set (partition_rows k rows)" by blast
  then show ?thesis by (simp add: partition_rows_def)
qed

lemma filter_concat_keyed:
  assumes "distinct ks" "k \<in> set ks" "\<And>k' x. x \<in> set (f k') \<Longrightarrow> key x = k'"
  shows "filter (\<lambda>x. key x = k) (concat (map f ks)) = f k"
  using assms(1,2)
proof (induction ks)
  case Nil
  then show ?case by simp
next
  case (Cons c cs)
  show ?case
  proof (cases "c = k")
    case True
    then have "k \<notin> set cs" using Cons.prems by simp
    then have "filter (\<lambda>x. key x = k) (concat (map f cs)) = []"
      using assms(3) by (auto simp: filter_empty_conv)
    moreover have "filter (\<lambda>x. key x = k) (f k) = f k"
      using assms(3) by (auto simp: filter_id_conv)
    ultimately show ?thesis using True by simp
  next
    case False
    then have "filter (\<lambda>x. key x = k) (f c) = []"
      using assms(3) by (auto simp: filter_empty_conv)
    then show ?thesis using False Cons by simp
  qed
qed

lemma winners_of_key:
  assumes "s0 \<in> set tbl" "where_clause today a s0"
  shows "filter (\<lambda>w. partition_key w = partition_key s0) (winners today a tbl) =
         first_of (partition_rows (partition_key s0) (filter (where_clause today a) tbl))"
  unfolding winners_concat
  by (rule filter_concat_keyed) (use assms in \<open>auto dest: first_of_key\<close>)


lemma first_of_subset: "set (first_of p) \<subseteq> set p"
proof (cases "sort_key order_key p")
  case Nil
  then show ?thesis by (simp add: first_of_def)
next
  case (Cons w q)
  then have "w \<in> set p" by (metis list.set_intros(1) set_sort)
  then show ?thesis using Cons by (simp add: first_of_def)
qed

lemma order_key_le_iff:
  "order_key w \<le> order_key s \<longleftrightarrow>
     source_rank (source w) < source_rank (source s) \<or>
     source_rank (source w) = source_rank (source s) \<and>
       (price_type_rank (price_type w) < price_type_rank (price_type s) \<or>
        price_type_rank (price_type w) = price_type_rank (price_type s) \<and>
          value_cents s \<le> value_cents w)"
  by (auto simp: order_key_def less_eq_prod_def)

lemma best_of_key:
  "filter (\<lambda>d. daily_key d = (i, dt, c)) (best now today a tbl) =
     map (daily_of now) (filter (\<lambda>w. partition_key w = (i, c, dt)) (winners today a tbl))"
  by (simp add: best_def filter_map comp_def daily_key_def daily_of_def partition_key_def
      conj_commute conj_left_commute)

lemma winner_exists:
  assumes "s0 \<in> set tbl" and "where_clause today a s0"
  shows "\<exists>w. filter (\<lambda>x. partition_key x = partition_key s0) (winners today a tbl) = [w] \<and>
             w \<in> set tbl \<and> where_clause today a w \<and> partition_key w = partition_key s0 \<and>
             (\<forall>s \<in> set tbl. where_clause today a s \<and> partition_key s = partition_key s0 \<longrightarrow>
                order_key w \<le> order_key s)"
proof -
  let ?p = "partition_rows (partition_key s0) (filter (where_clause today a) tbl)"
  have mem: "s \<in> set ?p \<longleftrightarrow> s \<in> set tbl \<and> where_clause today a s \<and> partition_key s = partition_key s0" for s
    by (auto simp: partition_rows_def)
  then have "?p \<noteq> []" using assms by (metis empty_iff empty_set)
  then obtain w where w: "first_of ?p = [w]" "w \<in> set ?p" "\<forall>s \<in> set ?p. order_key w \<le> order_key s"
    using first_of_min by blast
  show ?thesis
    using w mem winners_of_key[OF assms] by auto
qed

lemma source_rank_unknown: "x \<notin> set known_sources \<Longrightarrow> source_rank x = 99"
  by (simp add: known_sources_def source_rank_def)

lemma source_rank_known: "x \<in> set known_sources \<Longrightarrow> source_rank x < 99"
  by (auto simp: known_sources_def source_rank_def)

lemma sort_pair:
  "f x < f y \<Longrightarrow> sort_key f [x, y] = [x, y] \<and> sort_key f [y, x] = [x, y]"
  by auto

lemma winners_pair:
  assumes "where_clause today a x" "where_clause today a y" "partition_key x = partition_key y"
    and "order_key x < order_key y"
  shows "winners today a [x, y] = [x] \<and> winners today a [y, x] = [x]"
  using assms sort_pair[of order_key x y]
  by (simp add: winners_concat partition_rows_def first_of_def)

text \<open>
  Claim C1. For every (item, currency, date) key with a snapshot in scope, the resolver
  emits exactly one winner for the key; the winner is a snapshot of the key in scope whose
  (source rank, price-type rank) pair is lexicographically smallest and, among those, whose
  value is largest. Unknown sources rank after every known source. Of two snapshots of
  one key, the one with the higher-priority source wins whatever the values are, and with
  equal source and price-type ranks the larger value wins.
\<close>

theorem resolver_winner_priority:
  "(s0 \<in> set tbl \<and> where_clause today a s0 \<longrightarrow>
      (\<exists>w. filter (\<lambda>x. partition_key x = partition_key s0) (winners today a tbl) = [w] \<and>
           filter (\<lambda>d. daily_key d = (market_item_id s0, as_of_date s0, currency s0))
             (best now today a tbl) = [daily_of now w] \<and>
           w \<in> set tbl \<and> where_clause today a w \<and>
           (\<forall>s \<in> set tbl. where_clause today a s \<and> partition_key s = partition_key s0 \<longrightarrow>
              source_rank (source w) < source_rank (source s) \<or>
              source_rank (source w) = source_rank (source s) \<and>
                (price_type_rank (price_type w) < price_type_rank (price_type s) \<or>
                 price_type_rank (price_type w) = price_type_rank (price_type s) \<and>
                   value_cents s \<le> value_cents w)))) \<and>
   (\<forall>u. u \<notin> set known_sources \<longrightarrow>
      source_rank u = 99 \<and> (\<forall>v \<in> set known_sources. source_rank v < source_rank u)) \<and>
   (where_clause today a x1 \<and> where_clause today a y1 \<and> partition_key x1 = partition_key y1 \<and>
      source_rank (source x1) < source_rank (source y1) \<longrightarrow>
      winners today a [x1, y1] = [x1] \<and> winners today a [y1, x1] = [x1]) \<and>
   (where_clause today a x2 \<and> where_clause today a y2 \<and> partition_key x2 = partition_key y2 \<and>
      source_rank (source x2) = source_rank (source y2) \<and>
      price_type_rank (price_type x2) = price_type_rank (price_type y2) \<and>
      value_cents y2 < value_cents x2 \<longrightarrow>
      winners today a [x2, y2] = [x2] \<and> winners today a [y2, x2] = [x2])"
proof (intro conjI impI allI)
  assume h: "s0 \<in> set tbl \<and> where_clause today a s0"
  then obtain w where w:
      "filter (\<lambda>x. partition_key x = partition_key s0) (winners today a tbl) = [w]"
      "w \<in> set tbl" "where_clause today a w" "partition_key w = partition_key s0"
      "\<forall>s \<in> set tbl. where_clause today a s \<and> partition_key s = partition_key s0 \<longrightarrow>
                order_key w \<le> order_key s"
    using winner_exists by blast
  have "filter (\<lambda>d. daily_key d = (market_item_id s0, as_of_date s0, currency s0))
          (best now today a tbl) = [daily_of now w]"
    using w(1) by (simp add: best_of_key partition_key_def)
  then show "\<exists>w. filter (\<lambda>x. partition_key x = partition_key s0) (winners today a tbl) = [w] \<and>
           filter (\<lambda>d. daily_key d = (market_item_id s0, as_of_date s0, currency s0))
             (best now today a tbl) = [daily_of now w] \<and>
           w \<in> set tbl \<and> where_clause today a w \<and>
           (\<forall>s \<in> set tbl. where_clause today a s \<and> partition_key s = partition_key s0 \<longrightarrow>
              source_rank (source w) < source_rank (source s) \<or>
              source_rank (source w) = source_rank (source s) \<and>
                (price_type_rank (price_type w) < price_type_rank (price_type s) \<or>
                 price_type_rank (price_type w) = price_type_rank (price_type s) \<and>
                   value_cents s \<le> value_cents w))"
    using w order_key_le_iff by blast
next
  fix u assume "u \<notin> set known_sources"
  then show "source_rank u = 99" by (rule source_rank_unknown)
next
  fix u assume "u \<notin> set known_sources"
  then show "\<forall>v \<in> set known_sources. source_rank v < source_rank u"
    using source_rank_unknown source_rank_known by simp
next
  assume "where_clause today a x1 \<and> where_clause today a y1 \<and> partition_key x1 = partition_key y1 \<and>
      source_rank (source x1) < source_rank (source y1)"
  moreover from this have "order_key x1 < order_key y1"
    by (simp add: order_key_def less_prod_def)
  ultimately have "winners today a [x1, y1] = [x1] \<and> winners today a [y1, x1] = [x1]"
    using winners_pair by blast
  then show "winners today a [x1, y1] = [x1]" "winners today a [y1, x1] = [x1]" by simp_all
next
  assume "where_clause today a x2 \<and> where_clause today a y2 \<and> partition_key x2 = partition_key y2 \<and>
      source_rank (source x2) = source_rank (source y2) \<and>
      price_type_rank (price_type x2) = price_type_rank (price_type y2) \<and>
      value_cents y2 < value_cents x2"
  moreover from this have "order_key x2 < order_key y2"
    by (simp add: order_key_def less_prod_def)
  ultimately have "winners today a [x2, y2] = [x2] \<and> winners today a [y2, x2] = [x2]"
    using winners_pair by blast
  then show "winners today a [x2, y2] = [x2]" "winners today a [y2, x2] = [x2]" by simp_all
qed

text \<open>
  The scenario of the specification: Scryfall reports a market price of 12.34 and
  TCGplayer, the higher-priority source, reports 10.00 for the same item, day and currency;
  and two TCGplayer market prices of 9.00 and 10.00.
\<close>

theorem resolver_winner_priority_witness:
  "(snap 1 ''scryfall'' 100 ''USD'' ''market'' None 1234
      \<in> set [snap 1 ''scryfall'' 100 ''USD'' ''market'' None 1234,
              snap 1 ''tcgplayer'' 100 ''USD'' ''market'' None 1000] \<and>
    where_clause 100 no_args (snap 1 ''scryfall'' 100 ''USD'' ''market'' None 1234)) \<and>
   ''foo'' \<notin> set known_sources \<and>
   (where_clause 100 no_args (snap 1 ''tcgplayer'' 100 ''USD'' ''market'' None 1000) \<and>
    where_clause 100 no_args (snap 1 ''scryfall'' 100 ''USD'' ''market'' None 1234) \<and>
    source_rank ''tcgplayer'' < source_rank ''scryfall'') \<and>
   (where_clause 100 no_args (snap 1 ''tcgplayer'' 100 ''USD'' ''market'' (Some ''NM'') 1000) \<and>
    where_clause 100 no_args (snap 1 ''tcgplayer'' 100 ''USD'' ''market'' (Some ''LP'') 900) \<and>
    (900::int) < 1000) \<and>
   filter (\<lambda>x. partition_key x = (1, ''USD'', 100))
     (winners 100 no_args [snap 1 ''scryfall'' 100 ''USD'' ''market'' None 1234,
                           snap 1 ''tcgplayer'' 100 ''USD'' ''market'' None 1000])
     = [snap 1 ''tcgplayer'' 100 ''USD'' ''market'' None 1000] \<and>
   source_rank ''foo'' = 99 \<and>
   winners 100 no_args [snap 1 ''scryfall'' 100 ''USD'' ''market'' None 1234,
                        snap 1 ''tcgplayer'' 100 ''USD'' ''market'' None 1000]
     = [snap 1 ''tcgplayer'' 100 ''USD'' ''market'' None 1000] \<and>
   winners 100 no_args [snap 1 ''tcgplayer'' 100 ''USD'' ''market'' (Some ''LP'') 900,
                        snap 1 ''tcgplayer'' 100 ''USD'' ''market'' (Some ''NM'') 1000]
     = [snap 1 ''tcgplayer'' 100 ''USD'' ''market'' (Some ''NM'') 1000]"
proof -
  let ?scry = "snap 1 ''scryfall'' 100 ''USD'' ''market'' None 1234"
  let ?tcg = "snap 1 ''tcgplayer'' 100 ''USD'' ''market'' None 1000"
  let ?nm = "snap 1 ''tcgplayer'' 100 ''USD'' ''market'' (Some ''NM'') 1000"
  let ?lp = "snap 1 ''tcgplayer'' 100 ''USD'' ''market'' (Some ''LP'') 900"
  have w: "where_clause 100 no_args ?scry" "where_clause 100 no_args ?tcg"
      "where_clause 100 no_args ?nm" "where_clause 100 no_args ?lp"
    by (simp_all add: example_defs)
  have k: "partition_key ?scry = (1, ''USD'', 100)" "partition_key ?tcg = (1, ''USD'', 100)"
      "partition_key ?nm = (1, ''USD'', 100)" "partition_key ?lp = (1, ''USD'', 100)"
    by (simp_all add: example_defs)
  have r: "source_rank ''tcgplayer'' < source_rank ''scryfall''"
      "source (?scry) = ''scryfall''" "source (?tcg) = ''tcgplayer''"
      "source ?nm = source ?lp" "price_type ?nm = price_type ?lp"
      "value_cents ?lp < value_cents ?nm" "''foo'' \<notin> set known_sources"
    by (simp_all add: example_defs known_sources_def)
  have v: "value_cents ?tcg = 1000" "value_cents ?scry = 1234"
    by (simp_all add: example_defs)
  note t = resolver_winner_priority[of ?scry "[?scry, ?tcg]" 100 no_args 0 ?tcg ?scry ?nm ?lp]
  from t w k r have pair1: "winners 100 no_args [?scry, ?tcg] = [?tcg]" by simp
  from t w k r have pair2: "winners 100 no_args [?lp, ?nm] = [?nm]" by simp
  from t r have unk: "source_rank ''foo'' = 99" by blast
  show ?thesis using w k r pair1 pair2 unk by simp
qed

subsection \<open>Dependence on the order of the rows\<close>

lemma winners_in_scope:
  assumes "x \<in> set (winners today a tbl)"
  shows "x \<in> set tbl \<and> where_clause today a x"
proof -
  from assms have "\<exists>k. x \<in> set (first_of (partition_rows k (filter (where_clause today a) tbl)))"
    unfolding winners_concat set_concat set_map by blast
  then obtain k where "x \<in> set (first_of (partition_rows k (filter (where_clause today a) tbl)))"
    by blast
  then have "x \<in> set (partition_rows k (filter (where_clause today a) tbl))"
    using first_of_subset by blast
  then show ?thesis by (simp add: partition_rows_def)
qed

lemma winners_of_any_key:
  "filter (\<lambda>w. partition_key w = k) (winners today a tbl) =
     first_of (partition_rows k (filter (where_clause today a) tbl))"
proof (cases "k \<in> set (map partition_key (filter (where_clause today a) tbl))")
  case True
  then obtain s0 where "s0 \<in> set tbl" "where_clause today a s0" "partition_key s0 = k" by auto
  then show ?thesis using winners_of_key by blast
next
  case False
  then have "partition_rows k (filter (where_clause today a) tbl) = []"
    by (auto simp: partition_rows_def filter_empty_conv)
  moreover have "filter (\<lambda>w. partition_key w = k) (winners today a tbl) = []"
    using False winners_in_scope by (fastforce simp: filter_empty_conv)
  ultimately show ?thesis by (simp add: first_of_def)
qed

lemma first_of_perm:
  assumes "mset p = mset q"
  shows "map order_key (first_of p) = map order_key (first_of q)"
    and "inj_on order_key (set p) \<Longrightarrow> first_of p = first_of q"
proof -
  have s: "set p = set q" using assms by (rule mset_eq_setD)
  have e: "p = [] \<longleftrightarrow> q = []" using assms by (metis mset_zero_iff)
  show "map order_key (first_of p) = map order_key (first_of q)"
  proof (cases "p = []")
    case True
    then show ?thesis using e by simp
  next
    case False
    then obtain w where w: "first_of p = [w]" "w \<in> set p" "\<forall>s \<in> set p. order_key w \<le> order_key s"
      using first_of_min by blast
    from False e obtain v where v: "first_of q = [v]" "v \<in> set q" "\<forall>s \<in> set q. order_key v \<le> order_key s"
      using first_of_min by blast
    have "order_key w = order_key v" using w v s by (simp add: antisym)
    then show ?thesis using w v by simp
  qed
  show "first_of p = first_of q" if inj: "inj_on order_key (set p)"
  proof (cases "p = []")
    case True
    then show ?thesis using e by simp
  next
    case False
    then obtain w where w: "first_of p = [w]" "w \<in> set p" "\<forall>s \<in> set p. order_key w \<le> order_key s"
      using first_of_min by blast
    from False e obtain v where v: "first_of q = [v]" "v \<in> set q" "\<forall>s \<in> set q. order_key v \<le> order_key s"
      using first_of_min by blast
    have "order_key w = order_key v" using w v s by (simp add: antisym)
    then have "w = v" using inj w v s by (auto dest: inj_onD)
    then show ?thesis using w v by simp
  qed
qed

lemma partition_perm:
  "mset tbl1 = mset tbl2 \<Longrightarrow>
   mset (partition_rows k (filter (where_clause today a) tbl1)) =
   mset (partition_rows k (filter (where_clause today a) tbl2))"
  by (simp add: partition_rows_def)

lemma set_partition_rows:
  "set (partition_rows k (filter (where_clause today a) tbl)) =
     {s \<in> set tbl. where_clause today a s \<and> partition_key s = k}"
  by (auto simp: partition_rows_def)

text \<open>
  Claim C3, as it stands, fails: two snapshots of one key that agree on source rank,
  price-type rank and value (here they differ in the condition) are ranked by nothing
  else, and the snapshot that receives \<open>rn = 1\<close> is the one presented first.
\<close>

theorem resolver_tie_depends_on_row_order:
  "mset [snap 1 ''tcgplayer'' 100 ''USD'' ''market'' (Some ''NM'') 1000,
         snap 1 ''tcgplayer'' 100 ''USD'' ''market'' (Some ''LP'') 1000] =
   mset [snap 1 ''tcgplayer'' 100 ''USD'' ''market'' (Some ''LP'') 1000,
         snap 1 ''tcgplayer'' 100 ''USD'' ''market'' (Some ''NM'') 1000] \<and>
   winners 100 no_args
        [snap 1 ''tcgplayer'' 100 ''USD'' ''market'' (Some ''NM'') 1000,
         snap 1 ''tcgplayer'' 100 ''USD'' ''market'' (Some ''LP'') 1000] =
     [snap 1 ''tcgplayer'' 100 ''USD'' ''market'' (Some ''NM'') 1000] \<and>
   winners 100 no_args
        [snap 1 ''tcgplayer'' 100 ''USD'' ''market'' (Some ''LP'') 1000,
         snap 1 ''tcgplayer'' 100 ''USD'' ''market'' (Some ''NM'') 1000] =
     [snap 1 ''tcgplayer'' 100 ''USD'' ''market'' (Some ''LP'') 1000] \<and>
   snap 1 ''tcgplayer'' 100 ''USD'' ''market'' (Some ''NM'') 1000 \<noteq>
   snap 1 ''tcgplayer'' 100 ''USD'' ''market'' (Some ''LP'') 1000"
  by (simp add: winners_concat partition_rows_def first_of_def order_key_def example_defs)


text \<open>
  Claim C3, amended. For one set of snapshots, presented in any order, the winner of a
  key has the same source rank, price-type rank and value, so the emitted daily value is
  the same; and the winner is the same snapshot whenever no two snapshots of the key in
  scope agree on all three.
\<close>

theorem resolver_winner_order_independent:
  "mset tbl1 = mset tbl2 \<longrightarrow>
     map order_key (filter (\<lambda>w. partition_key w = k) (winners today a tbl1)) =
     map order_key (filter (\<lambda>w. partition_key w = k) (winners today a tbl2)) \<and>
     map dp_value_cents (filter (\<lambda>d. daily_key d = (i, dt, c)) (best now today a tbl1)) =
     map dp_value_cents (filter (\<lambda>d. daily_key d = (i, dt, c)) (best now today a tbl2)) \<and>
     (inj_on order_key {s \<in> set tbl1. where_clause today a s \<and> partition_key s = k} \<longrightarrow>
        filter (\<lambda>w. partition_key w = k) (winners today a tbl1) =
        filter (\<lambda>w. partition_key w = k) (winners today a tbl2))"
proof (intro impI conjI)
  assume m: "mset tbl1 = mset tbl2"
  show "map order_key (filter (\<lambda>w. partition_key w = k) (winners today a tbl1)) =
     map order_key (filter (\<lambda>w. partition_key w = k) (winners today a tbl2))"
    unfolding winners_of_any_key using partition_perm[OF m] by (rule first_of_perm(1))
  have "map order_key (filter (\<lambda>w. partition_key w = (i, c, dt)) (winners today a tbl1)) =
     map order_key (filter (\<lambda>w. partition_key w = (i, c, dt)) (winners today a tbl2))"
    unfolding winners_of_any_key using partition_perm[OF m] by (rule first_of_perm(1))
  then have "map (\<lambda>w. - snd (snd (order_key w))) (filter (\<lambda>w. partition_key w = (i, c, dt)) (winners today a tbl1)) =
     map (\<lambda>w. - snd (snd (order_key w))) (filter (\<lambda>w. partition_key w = (i, c, dt)) (winners today a tbl2))"
    using map_map[of "\<lambda>k. - snd (snd k)" order_key] by (metis (no_types, lifting) comp_apply map_eq_conv)
  then show "map dp_value_cents (filter (\<lambda>d. daily_key d = (i, dt, c)) (best now today a tbl1)) =
     map dp_value_cents (filter (\<lambda>d. daily_key d = (i, dt, c)) (best now today a tbl2))"
    by (simp add: best_of_key comp_def daily_of_def order_key_def)
  assume "inj_on order_key {s \<in> set tbl1. where_clause today a s \<and> partition_key s = k}"
  then show "filter (\<lambda>w. partition_key w = k) (winners today a tbl1) =
        filter (\<lambda>w. partition_key w = k) (winners today a tbl2)"
    unfolding winners_of_any_key using partition_perm[OF m] first_of_perm(2)
    by (simp add: set_partition_rows)
qed

theorem resolver_winner_order_independent_witness:
  "mset [snap 1 ''scryfall'' 100 ''USD'' ''market'' None 1234,
         snap 1 ''tcgplayer'' 100 ''USD'' ''market'' None 1000] =
   mset [snap 1 ''tcgplayer'' 100 ''USD'' ''market'' None 1000,
         snap 1 ''scryfall'' 100 ''USD'' ''market'' None 1234] \<and>
   inj_on order_key
     {s \<in> set [snap 1 ''scryfall'' 100 ''USD'' ''market'' None 1234,
                snap 1 ''tcgplayer'' 100 ''USD'' ''market'' None 1000].
        where_clause 100 no_args s \<and> partition_key s = (1, ''USD'', 100)} \<and>
   filter (\<lambda>w. partition_key w = (1, ''USD'', 100))
     (winners 100 no_args [snap 1 ''scryfall'' 100 ''USD'' ''market'' None 1234,
                           snap 1 ''tcgplayer'' 100 ''USD'' ''market'' None 1000]) =
   filter (\<lambda>w. partition_key w = (1, ''USD'', 100))
     (winners 100 no_args [snap 1 ''tcgplayer'' 100 ''USD'' ''market'' None 1000,
                           snap 1 ''scryfall'' 100 ''USD'' ''market'' None 1234]) \<and>
   map dp_value_cents (filter (\<lambda>d. daily_key d = (1, 100, ''USD''))
     (best 0 100 no_args [snap 1 ''scryfall'' 100 ''USD'' ''market'' None 1234,
                          snap 1 ''tcgplayer'' 100 ''USD'' ''market'' None 1000])) =
   map dp_value_cents (filter (\<lambda>d. daily_key d = (1, 100, ''USD''))
     (best 0 100 no_args [snap 1 ''tcgplayer'' 100 ''USD'' ''market'' None 1000,
                          snap 1 ''scryfall'' 100 ''USD'' ''market'' None 1234]))"
proof -
  let ?scry = "snap 1 ''scryfall'' 100 ''USD'' ''market'' None 1234"
  let ?tcg = "snap 1 ''tcgplayer'' 100 ''USD'' ''market'' None 1000"
  have m: "mset [?scry, ?tcg] = mset [?tcg, ?scry]" by simp
  have "order_key ?scry \<noteq> order_key ?tcg"
    by (simp add: order_key_def example_defs)
  then have "inj_on order_key {?scry, ?tcg}" by (auto simp: inj_on_def)
  moreover have "{s \<in> set [?scry, ?tcg]. where_clause 100 no_args s \<and> partition_key s = (1, ''USD'', 100)}
      \<subseteq> {?scry, ?tcg}" by auto
  ultimately have i: "inj_on order_key
     {s \<in> set [?scry, ?tcg]. where_clause 100 no_args s \<and> partition_key s = (1, ''USD'', 100)}"
    by (rule inj_on_subset)
  show ?thesis
    using m i resolver_winner_order_independent
      [of "[?scry, ?tcg]" "[?tcg, ?scry]" "(1, ''USD'', 100)" 100 no_args 1 100 "''USD''" 0]
    by blast
qed

subsection \<open>Partition isolation\<close>








subsection \<open>Selection scope\<close>

lemma where_clause_all_dates:
  "arg_all_dates a \<Longrightarrow>
   where_clause today a s \<longleftrightarrow>
     currency s = currency_of a \<and>
     (\<forall>lo. arg_since a = Some lo \<longrightarrow> lo \<le> as_of_date s) \<and>
     (\<forall>hi. arg_until a = Some hi \<longrightarrow> as_of_date s \<le> hi)"
  by (simp add: where_clause_def split: option.splits)

lemma where_clause_single_date:
  "\<not> arg_all_dates a \<Longrightarrow>
   where_clause today a s \<longleftrightarrow>
     currency s = currency_of a \<and> as_of_date s = asOfDate_of today a"
  by (simp add: where_clause_def)

text \<open>
  Claim C9 at the invocation \<open>--since 50\<close> (no \<open>--all-dates\<close>) on day 100: a snapshot
  dated 60, on or after the bound, is not resolved; with the bound 200 a snapshot dated
  100, before the bound, is resolved; with \<open>--all-dates\<close> the bound is applied.
\<close>

theorem resolver_since_ignored_without_all_dates:
  "where_clause 100 (no_args\<lparr>arg_since := Some 50\<rparr>) (snap 1 ''scryfall'' 60 ''USD'' ''market'' None 500) = False \<and>
   winners 100 (no_args\<lparr>arg_since := Some 50\<rparr>)
     [snap 1 ''scryfall'' 60 ''USD'' ''market'' None 500] = [] \<and>
   winners 100 (no_args\<lparr>arg_since := Some 200\<rparr>)
     [snap 1 ''scryfall'' 100 ''USD'' ''market'' None 500] =
     [snap 1 ''scryfall'' 100 ''USD'' ''market'' None 500] \<and>
   winners 100 (no_args\<lparr>arg_since := Some 50, arg_all_dates := True\<rparr>)
     [snap 1 ''scryfall'' 60 ''USD'' ''market'' None 500] =
     [snap 1 ''scryfall'' 60 ''USD'' ''market'' None 500]"
  by (simp add: winners_concat partition_rows_def first_of_def example_defs)



section \<open>Properties of the snapshot normalizer\<close>

lemma collect_Inr_iff: "collect xs = Inr vs \<longleftrightarrow> xs = map Inr vs"
proof (induction xs arbitrary: vs)
  case Nil
  then show ?case by auto
next
  case (Cons x xs)
  show ?case
  proof (cases x)
    case (Inl e)
    then show ?thesis by (cases vs) auto
  next
    case (Inr v)
    show ?thesis
    proof (cases "collect xs")
      case (Inl e)
      then have "\<And>ws. xs \<noteq> map Inr ws" using Cons.IH by (metis sum.distinct(1))
      then show ?thesis using Inl Inr by (cases vs) auto
    next
      case r: (Inr ws)
      then have "xs = map Inr ws" using Cons.IH by simp
      then show ?thesis using r Inr by (cases vs) auto
    qed
  qed
qed

subsection \<open>The computed rows have pairwise distinct identity keys\<close>

lemma value_tuple_fields:
  "value_tuple pr (k, cur, pt) = Inr v \<Longrightarrow> fst v = cur \<and> fst (snd v) = pt"
  by (auto simp: value_tuple_def split: sum.splits)

lemma lateral_values_fields:
  assumes "map (value_tuple pr) fs = map Inr vs"
  shows "map (\<lambda>v. (fst v, fst (snd v))) vs = map (\<lambda>f. (fst (snd f), snd (snd f))) fs"
  using assms
proof (induction fs arbitrary: vs)
  case Nil
  then show ?case by simp
next
  case (Cons f fs)
  then obtain v ws where vs: "vs = v # ws" "value_tuple pr f = Inr v" "map (value_tuple pr) fs = map Inr ws"
    by (cases vs) auto
  obtain k cur pt where f: "f = (k, cur, pt)" by (cases f) auto
  show ?case using vs f Cons.IH[OF vs(3)] value_tuple_fields[of pr k cur pt v] by simp
qed

lemma select_rows_fields:
  "map (\<lambda>r. (currency r, price_type r)) (select_rows i d vs) =
     map (\<lambda>v. (fst v, fst (snd v))) (filter kept vs)"
  by (induction vs) (auto simp: select_rows_def kept_def split: option.splits)

lemma select_rows_const:
  "r \<in> set (select_rows i d vs) \<Longrightarrow>
     market_item_id r = i \<and> source r = ''scryfall'' \<and> as_of_date r = d \<and> condition r = None \<and>
     0 < value_cents r"
  by (induction vs) (auto simp: select_rows_def split: option.splits if_splits)

lemma distinct_map_coarser:
  assumes "distinct (map f xs)" and "\<And>x y. g x = g y \<Longrightarrow> f x = f y"
  shows "distinct (map g xs)"
proof -
  from assms(1) have d: "distinct xs" "inj_on f (set xs)"
    by (simp_all add: distinct_map)
  have "inj_on g (set xs)"
  proof (rule inj_onI)
    fix x y
    assume xy: "x \<in> set xs" "y \<in> set xs" and "g x = g y"
    from this(3) have "f x = f y" by (rule assms(2))
    with xy d(2) show "x = y" by (rule_tac inj_onD)
  qed
  with d(1) show ?thesis by (simp add: distinct_map)
qed

lemma rows_of_item_distinct:
  assumes "rows_of_item d (i, pr) = Inr rs"
  shows "distinct (map ident rs)"
proof -
  from assms obtain vs where vs: "lateral_values pr = Inr vs" "rs = select_rows i d vs"
    by (auto simp: rows_of_item_def split: sum.splits)
  then have "map (value_tuple pr) price_fields = map Inr vs"
    by (simp add: lateral_values_def collect_Inr_iff)
  then have "map (\<lambda>v. (fst v, fst (snd v))) vs = map (\<lambda>f. (fst (snd f), snd (snd f))) price_fields"
    by (rule lateral_values_fields)
  moreover have "distinct (map (\<lambda>f. (fst (snd f), snd (snd f))) price_fields)"
    by (simp add: price_fields_def)
  ultimately have "distinct (map (\<lambda>v. (fst v, fst (snd v))) vs)" by simp
  then have "distinct (map (\<lambda>v. (fst v, fst (snd v))) (filter kept vs))"
    by (rule distinct_map_filter)
  then have "distinct (map (\<lambda>r. (currency r, price_type r)) rs)"
    using vs(2) by (simp add: select_rows_fields)
  then show ?thesis
    by (rule distinct_map_coarser) (simp add: ident_def)
qed

lemma rows_of_item_id:
  "rows_of_item d (i, pr) = Inr rs \<Longrightarrow> r \<in> set rs \<Longrightarrow> market_item_id r = i"
  by (auto simp: rows_of_item_def split: sum.splits dest: select_rows_const)

lemma rows_blocks_distinct:
  assumes "map (rows_of_item d) src = map Inr rss" and "distinct (map fst src)"
  shows "distinct (map ident (concat rss)) \<and>
         (\<forall>r \<in> set (concat rss). market_item_id r \<in> fst ` set src)"
  using assms
proof (induction src arbitrary: rss)
  case Nil
  then show ?case by simp
next
  case (Cons x src)
  then obtain rs rest where rss: "rss = rs # rest" "rows_of_item d x = Inr rs"
      "map (rows_of_item d) src = map Inr rest"
    by (cases rss) auto
  obtain i pr where x: "x = (i, pr)" by (cases x) auto
  have ih: "distinct (map ident (concat rest))"
      "\<forall>r \<in> set (concat rest). market_item_id r \<in> fst ` set src"
    using Cons.IH[OF rss(3)] Cons.prems(2) by simp_all
  have rs_id: "\<forall>r \<in> set rs. market_item_id r = i"
    using rss(2) x rows_of_item_id by blast
  have rs_d: "distinct (map ident rs)"
    using rss(2) x rows_of_item_distinct by blast
  have "i \<notin> fst ` set src" using Cons.prems(2) x by simp
  have "ident r \<noteq> ident r'" if "r \<in> set rs" "r' \<in> set (concat rest)" for r r'
  proof -
    have "market_item_id r = i" "market_item_id r' \<in> fst ` set src" using that rs_id ih(2) by auto
    then have "market_item_id r \<noteq> market_item_id r'" using \<open>i \<notin> fst ` set src\<close> by metis
    then show ?thesis by (simp add: ident_def)
  qed
  then have "\<forall>r \<in> set rs. \<forall>r' \<in> set (concat rest). ident r \<noteq> ident r'" by simp
  then have "ident ` set rs \<inter> ident ` set (concat rest) = {}"
    by (simp only: disjoint_iff image_iff) metis
  then have "distinct (map ident (concat rss))"
    using rs_d ih(1) rss(1) by simp
  moreover have "\<forall>r \<in> set (concat rss). market_item_id r \<in> fst ` set (x # src)"
    using rs_id ih(2) rss(1) x by auto
  ultimately show ?case by simp
qed

lemma matching_cards_Cons:
  "matching_cards mi (s # scrs) =
     (case payload_prices s of
        None \<Rightarrow> []
      | Some pr \<Rightarrow>
          if scr_id s = canonical_id mi \<and> game mi = ''mtg'' \<and> canonical_source mi = ''scryfall''
          then [(mi_id mi, pr)] else []) @ matching_cards mi scrs"
  by (simp add: matching_cards_def)

lemma matching_cards_empty:
  "canonical_id mi \<notin> scr_id ` set scrs \<Longrightarrow> matching_cards mi scrs = []"
proof (induction scrs)
  case Nil
  then show ?case by (simp add: matching_cards_def)
next
  case (Cons s scrs)
  then have "matching_cards mi scrs = []" "scr_id s \<noteq> canonical_id mi" by auto
  then show ?case unfolding matching_cards_Cons by (simp split: option.splits)
qed

lemma matching_cards_short:
  "distinct (map scr_id scrs) \<Longrightarrow> length (matching_cards mi scrs) \<le> 1"
proof (induction scrs)
  case Nil
  then show ?case by (simp add: matching_cards_def)
next
  case (Cons s scrs)
  show ?case
  proof (cases "scr_id s = canonical_id mi")
    case True
    then have "canonical_id mi \<notin> scr_id ` set scrs" using Cons.prems by auto
    then have "matching_cards mi scrs = []" by (rule matching_cards_empty)
    then show ?thesis unfolding matching_cards_Cons by (simp split: option.splits)
  next
    case False
    moreover have "length (matching_cards mi scrs) \<le> 1" using Cons by simp
    ultimately show ?thesis unfolding matching_cards_Cons by (simp split: option.splits)
  qed
qed

lemma matching_cards_fst:
  "x \<in> set (matching_cards mi scrs) \<Longrightarrow> fst x = mi_id mi"
proof (induction scrs)
  case Nil
  then show ?case by (simp add: matching_cards_def)
next
  case (Cons s scrs)
  then show ?case unfolding matching_cards_Cons by (auto split: option.splits if_splits)
qed

lemma src_cte_distinct:
  assumes "distinct (map mi_id mis)" and "distinct (map scr_id scrs)"
  shows "distinct (map fst (src_cte mis scrs)) \<and> fst ` set (src_cte mis scrs) \<subseteq> mi_id ` set mis"
  using assms(1)
proof (induction mis)
  case Nil
  then show ?case by (simp add: src_cte_def)
next
  case (Cons mi mis)
  let ?inner = "matching_cards mi scrs"
  have split: "src_cte (mi # mis) scrs = ?inner @ src_cte mis scrs"
    by (simp add: src_cte_def)
  have len: "length ?inner \<le> 1" using assms(2) by (rule matching_cards_short)
  have fst: "\<forall>x \<in> set ?inner. fst x = mi_id mi" using matching_cards_fst by blast
  have d_inner: "distinct (map fst ?inner)"
  proof (cases ?inner)
    case Nil
    then show ?thesis by simp
  next
    case (Cons y ys)
    then have "ys = []" using len by simp
    then show ?thesis using Cons by simp
  qed
  have ih: "distinct (map fst (src_cte mis scrs))" "fst ` set (src_cte mis scrs) \<subseteq> mi_id ` set mis"
    using Cons by simp_all
  have "mi_id mi \<notin> mi_id ` set mis" using Cons.prems by simp
  have "fst x \<noteq> fst y" if "x \<in> set ?inner" "y \<in> set (src_cte mis scrs)" for x y
  proof -
    have "fst x = mi_id mi" using that(1) fst by simp
    moreover have "fst y \<in> mi_id ` set mis" using that(2) ih(2) by (metis image_eqI subsetD)
    ultimately show ?thesis using \<open>mi_id mi \<notin> mi_id ` set mis\<close> by metis
  qed
  then have "\<forall>x \<in> set ?inner. \<forall>y \<in> set (src_cte mis scrs). fst x \<noteq> fst y" by simp
  then have "fst ` set ?inner \<inter> fst ` set (src_cte mis scrs) = {}"
    by (simp only: disjoint_iff image_iff) metis
  then have "distinct (map fst (src_cte (mi # mis) scrs))"
    unfolding split using d_inner ih(1) by simp
  moreover have "fst ` set (src_cte (mi # mis) scrs) \<subseteq> mi_id ` set (mi # mis)"
    unfolding split using fst ih(2) by auto
  ultimately show ?case by simp
qed

lemma rows_cte_distinct:
  assumes "distinct (map mi_id mis)" and "distinct (map scr_id scrs)"
    and "rows_cte d mis scrs = Inr rows"
  shows "distinct (map ident rows)"
proof -
  from assms(3) obtain rss where rss: "collect (map (rows_of_item d) (src_cte mis scrs)) = Inr rss"
      "rows = concat rss"
    by (auto simp: rows_cte_def split: sum.splits)
  then have "map (rows_of_item d) (src_cte mis scrs) = map Inr rss"
    by (simp add: collect_Inr_iff)
  then show ?thesis
    using rows_blocks_distinct src_cte_distinct[OF assms(1,2)] rss(2) by blast
qed


subsection \<open>Update, then insert\<close>

lemma update_rows_ident: "map ident (fst (update_rows rows tbl)) = map ident tbl"
  by (simp add: update_rows_def ident_def split: option.split)

lemma find_ident:
  assumes "distinct (map ident rows)" and "r \<in> set rows" and "ident t = ident r"
  shows "find (\<lambda>r. ident t = ident r) rows = Some r"
proof -
  obtain r' where r': "find (\<lambda>r. ident t = ident r) rows = Some r'"
    using assms(2,3) by (cases "find (\<lambda>r. ident t = ident r) rows") (auto simp: find_None_iff)
  then have "r' \<in> set rows" "ident t = ident r'"
    by (auto simp: find_Some_iff in_set_conv_nth)
  moreover have "inj_on ident (set rows)" using assms(1) by (simp add: distinct_map)
  ultimately have "r' = r" using assms(2,3) by (auto dest: inj_onD)
  then show ?thesis using r' by simp
qed

lemma update_rows_agree:
  assumes "distinct (map ident rows)" and "t' \<in> set (fst (update_rows rows tbl))"
    and "r \<in> set rows" and "ident t' = ident r"
  shows "value_cents t' = value_cents r \<and> raw t' = raw r"
proof -
  from assms(2) obtain t where t: "t \<in> set tbl"
      "t' = (case find (\<lambda>r. ident t = ident r) rows of None \<Rightarrow> t
             | Some r \<Rightarrow> t\<lparr>value_cents := value_cents r, raw := raw r\<rparr>)"
    by (auto simp: update_rows_def)
  have "ident t' = ident t" using t(2) by (simp add: ident_def split: option.split)
  then have "find (\<lambda>r. ident t = ident r) rows = Some r"
    using find_ident[OF assms(1,3)] assms(4) by simp
  then show ?thesis using t(2) by simp
qed

lemma update_rows_fixed:
  assumes "\<forall>t \<in> set tbl. \<forall>r \<in> set rows. ident t = ident r \<longrightarrow>
             value_cents t = value_cents r \<and> raw t = raw r"
  shows "fst (update_rows rows tbl) = tbl"
proof -
  have "(case find (\<lambda>r. ident t = ident r) rows of None \<Rightarrow> t
         | Some r \<Rightarrow> t\<lparr>value_cents := value_cents r, raw := raw r\<rparr>) = t" if "t \<in> set tbl" for t
  proof (cases "find (\<lambda>r. ident t = ident r) rows")
    case None
    then show ?thesis by simp
  next
    case (Some r)
    then have "r \<in> set rows" "ident t = ident r"
      by (auto simp: find_Some_iff in_set_conv_nth)
    then have "value_cents t = value_cents r \<and> raw t = raw r" using assms that by blast
    then show ?thesis using Some by simp
  qed
  then show ?thesis by (simp add: update_rows_def map_idI)
qed

lemma insert_rows_none:
  assumes "\<forall>r \<in> set rows. \<exists>t \<in> set tbl. ident t = ident r"
  shows "insert_rows rows tbl = (tbl, 0)"
proof -
  have "filter (\<lambda>r. \<not> (\<exists>t \<in> set tbl. ident t = ident r)) rows = []"
    using assms by (simp add: filter_empty_conv)
  then show ?thesis by (simp add: insert_rows_def)
qed

lemma written_agree:
  assumes "distinct (map ident rows)" and "t \<in> set (written rows tbl)"
    and "r \<in> set rows" and "ident t = ident r"
  shows "value_cents t = value_cents r \<and> raw t = raw r"
proof -
  from assms(2) consider "t \<in> set (fst (update_rows rows tbl))" | "t \<in> set rows"
    by (auto simp: written_def insert_rows_def)
  then show ?thesis
  proof cases
    case 1
    then show ?thesis using update_rows_agree assms by blast
  next
    case 2
    have "inj_on ident (set rows)" using assms(1) by (simp add: distinct_map)
    then have "t = r" using 2 assms(3,4) by (auto dest: inj_onD)
    then show ?thesis by simp
  qed
qed

lemma written_covers:
  assumes "r \<in> set rows"
  shows "\<exists>t \<in> set (written rows tbl). ident t = ident r"
proof (cases "\<exists>t \<in> set (fst (update_rows rows tbl)). ident t = ident r")
  case True
  then show ?thesis by (auto simp: written_def insert_rows_def)
next
  case False
  then have "r \<in> set (filter (\<lambda>r. \<not> (\<exists>t \<in> set (fst (update_rows rows tbl)). ident t = ident r)) rows)"
    using assms by simp
  then have "r \<in> set (written rows tbl)" by (simp add: written_def insert_rows_def)
  then show ?thesis by blast
qed

lemma written_idempotent:
  assumes "distinct (map ident rows)"
  shows "fst (update_rows rows (written rows tbl)) = written rows tbl"
    and "insert_rows rows (written rows tbl) = (written rows tbl, 0)"
    and "written rows (written rows tbl) = written rows tbl"
proof -
  show u: "fst (update_rows rows (written rows tbl)) = written rows tbl"
    by (rule update_rows_fixed) (use written_agree[OF assms] in blast)
  show i: "insert_rows rows (written rows tbl) = (written rows tbl, 0)"
    by (rule insert_rows_none) (use written_covers in blast)
  show "written rows (written rows tbl) = written rows tbl"
    using u i by (simp add: written_def[of rows "written rows tbl"])
qed

lemma count_distinct_le_1:
  "distinct (map f xs) \<Longrightarrow> length (filter (\<lambda>x. f x = k) xs) \<le> 1"
proof (induction xs)
  case Nil
  then show ?case by simp
next
  case (Cons a xs)
  show ?case
  proof (cases "f a = k")
    case True
    then have "\<forall>x \<in> set xs. f x \<noteq> k" using Cons.prems by (metis distinct.simps(2) image_eqI list.simps(9) set_map)
    then have "filter (\<lambda>x. f x = k) xs = []" by (simp add: filter_empty_conv)
    then show ?thesis using True by simp
  next
    case False
    then show ?thesis using Cons by simp
  qed
qed

lemma written_count:
  assumes "distinct (map ident rows)"
  shows "length (filter (\<lambda>t. ident t = k) (written rows tbl)) =
           (if k \<in> ident ` set rows \<and> k \<notin> ident ` set tbl then 1
            else length (filter (\<lambda>t. ident t = k) tbl))"
proof -
  let ?u = "fst (update_rows rows tbl)"
  let ?new = "filter (\<lambda>r. \<not> (\<exists>t \<in> set ?u. ident t = ident r)) rows"
  have len_u: "length (filter (\<lambda>t. ident t = k) ?u) = length (filter (\<lambda>t. ident t = k) tbl)"
  proof -
    have e: "length (filter (\<lambda>t. ident t = k) xs) = length (filter (\<lambda>x. x = k) (map ident xs))" for xs
      by (simp add: filter_map comp_def)
    show ?thesis unfolding e update_rows_ident ..
  qed
  have set_u: "ident ` set ?u = ident ` set tbl"
    using update_rows_ident[of rows tbl] by (metis set_map)
  have new: "filter (\<lambda>t. ident t = k) ?new =
               filter (\<lambda>r. ident r = k \<and> k \<notin> ident ` set tbl) rows"
  proof -
    have ex: "(\<exists>t \<in> set ?u. ident t = x) \<longleftrightarrow> x \<in> ident ` set tbl" for x
      unfolding set_u[symmetric] by (simp add: image_iff eq_commute)
    show ?thesis unfolding filter_filter ex by (rule filter_cong) auto
  qed
  have le: "length (filter (\<lambda>r. ident r = k) rows) \<le> 1"
    using assms by (rule count_distinct_le_1)
  have total: "length (filter (\<lambda>t. ident t = k) (written rows tbl)) =
        length (filter (\<lambda>t. ident t = k) tbl) +
        length (filter (\<lambda>r. ident r = k \<and> k \<notin> ident ` set tbl) rows)"
  proof -
    have "written rows tbl = ?u @ ?new" by (simp add: written_def insert_rows_def)
    then have "length (filter (\<lambda>t. ident t = k) (written rows tbl)) =
        length (filter (\<lambda>t. ident t = k) ?u) + length (filter (\<lambda>t. ident t = k) ?new)"
      by (simp only: filter_append length_append)
    then show ?thesis by (simp only: len_u new)
  qed
  show ?thesis
  proof (cases "k \<in> ident ` set tbl")
    case True
    then show ?thesis using total by simp
  next
    case False
    then have z: "filter (\<lambda>t. ident t = k) tbl = []" by (auto simp: filter_empty_conv)
    show ?thesis
    proof (cases "k \<in> ident ` set rows")
      case True
      then have "filter (\<lambda>r. ident r = k) rows \<noteq> []" by (auto simp: filter_empty_conv)
      then have "length (filter (\<lambda>r. ident r = k) rows) = 1"
        using le by (cases "filter (\<lambda>r. ident r = k) rows") auto
      then show ?thesis using total z False True by simp
    next
      case F2: False
      then have "filter (\<lambda>r. ident r = k) rows = []" by (auto simp: filter_empty_conv)
      then show ?thesis using total z False F2 by simp
    qed
  qed
qed

subsection \<open>The run as a whole\<close>

lemma normalize_main_cases:
  "normalize_main f d mis scrs (fresh tbl) =
     (if f Begin \<or> f Update \<or> f Insert \<or> f Commit then (1, None, fresh tbl)
      else (case rows_cte d mis scrs of
              Inl e \<Rightarrow> (1, None, fresh tbl)
            | Inr rows \<Rightarrow>
                (0, Some (snd (update_rows rows tbl),
                          snd (insert_rows rows (fst (update_rows rows tbl)))),
                 fresh (written rows tbl))))"
  by (auto simp: normalize_main_def query_begin_def try_block_def query_statement_def
      query_commit_def query_rollback_def client_end_def updateSql_def insertSql_def
      fresh_def written_def split: sum.splits prod.splits)


lemma rows_cte_a: "rows_cte 100 [mi1] [card_a] = Inr rows_a"
  by (simp add: normalizer_defs mi1_def card_a_def rows_a_def parse_defs)

lemma rows_cte_ab: "rows_cte 100 [mi1, mi2] [card_a, card_b] = Inl (InvalidNumericSyntax ''-'')"
  by (simp add: normalizer_defs mi1_def mi2_def card_a_def card_b_def parse_defs)

lemma first_run_a: "normalize_main no_faults 100 [mi1] [card_a] (fresh []) = (0, Some (0, 2), fresh rows_a)"
  by (simp add: normalize_main_cases rows_cte_a no_faults_def written_def update_rows_def insert_rows_def rows_a_def)

lemma second_run_a: "normalize_main no_faults 100 [mi1] [card_a] (fresh rows_a) = (0, Some (2, 0), fresh rows_a)"
  by (simp add: normalize_main_cases rows_cte_a no_faults_def written_def update_rows_def insert_rows_def rows_a_def ident_def)

text \<open>
  Claim C2. Let the ids of \<open>market_items\<close> and of \<open>scryfall_cards_raw\<close> be unique
  (they are the keys of the two tables). A second run with the same source data and
  date leaves the store exactly as the first run left it, every row with its value
  and payload, and reports zero inserted rows. After a run, no identity key has more
  rows than it had before, unless it had none: then it has at most one.
\<close>

theorem normalizer_idempotent:
  assumes "distinct (map mi_id mis)" and "distinct (map scr_id scrs)"
    and "normalize_main no_faults d mis scrs (fresh tbl) = (c1, l1, st1)"
    and "normalize_main no_faults d mis scrs st1 = (c2, l2, st2)"
  shows "st2 = st1 \<and> c2 = c1 \<and> (\<forall>u i. l2 = Some (u, i) \<longrightarrow> i = 0) \<and>
         (c1 = 0 \<longrightarrow> (\<exists>u. l2 = Some (u, 0))) \<and>
         (\<forall>k. length (filter (\<lambda>t. ident t = k) (committed st1)) \<le>
               max 1 (length (filter (\<lambda>t. ident t = k) tbl)))"
proof (cases "rows_cte d mis scrs")
  case (Inl e)
  then have 1: "c1 = 1" "l1 = None" "st1 = fresh tbl"
    using assms(3) by (simp_all add: normalize_main_cases no_faults_def)
  then have "c2 = 1" "l2 = None" "st2 = fresh tbl"
    using assms(4) Inl by (simp_all add: normalize_main_cases no_faults_def)
  then show ?thesis using 1 by (simp add: fresh_def)
next
  case (Inr rows)
  then have d: "distinct (map ident rows)" using assms(1,2) rows_cte_distinct by blast
  have 1: "c1 = 0" "st1 = fresh (written rows tbl)"
    using assms(3) Inr by (simp_all add: normalize_main_cases no_faults_def)
  have 2: "c2 = 0" "st2 = fresh (written rows tbl)"
      "l2 = Some (snd (update_rows rows (written rows tbl)), 0)"
    using assms(4) Inr 1 written_idempotent[OF d, of tbl]
    by (simp_all add: normalize_main_cases no_faults_def)
  have "length (filter (\<lambda>t. ident t = k) (written rows tbl)) \<le>
               max 1 (length (filter (\<lambda>t. ident t = k) tbl))" for k
    using written_count[OF d, of k tbl] by simp
  then show ?thesis using 1 2 by (simp add: fresh_def)
qed

theorem normalizer_idempotent_witness:
  "distinct (map mi_id [mi1]) \<and> distinct (map scr_id [card_a]) \<and>
   normalize_main no_faults 100 [mi1] [card_a] (fresh []) = (0, Some (0, 2), fresh rows_a) \<and>
   normalize_main no_faults 100 [mi1] [card_a] (fresh rows_a) = (0, Some (2, 0), fresh rows_a) \<and>
   (\<forall>k. length (filter (\<lambda>t. ident t = k) (committed (fresh rows_a))) \<le>
        max 1 (length (filter (\<lambda>t. ident t = k) [])))"
proof -
  have h: "distinct (map mi_id [mi1])" "distinct (map scr_id [card_a])" by simp_all
  show ?thesis
    using h first_run_a second_run_a
      normalizer_idempotent[OF h first_run_a second_run_a]
    by simp
qed

text \<open>
  Claim C10. A run that starts with no open transaction ends with none, and either exits
  with 0, having committed the insert applied to the result of the update, or exits
  with 1 and leaves the committed table as it was. It exits with 0 exactly when none of
  \<open>BEGIN\<close>, the two statements and \<open>COMMIT\<close> is rejected and no field raises.
\<close>

theorem normalizer_atomic:
  "\<exists>code log tbl'.
     normalize_main f d mis scrs \<lparr> committed = tbl, pending = None \<rparr> =
       (code, log, \<lparr> committed = tbl', pending = None \<rparr>) \<and>
     (code = 0 \<and>
        (\<exists>rows. rows_cte d mis scrs = Inr rows \<and>
           tbl' = fst (insert_rows rows (fst (update_rows rows tbl))) \<and>
           log = Some (snd (update_rows rows tbl),
                       snd (insert_rows rows (fst (update_rows rows tbl))))) \<or>
      code = 1 \<and> log = None \<and> tbl' = tbl) \<and>
     ((code = 0) =
        (\<not> f Begin \<and> \<not> f Update \<and> \<not> f Insert \<and> \<not> f Commit \<and>
         (\<exists>rows. rows_cte d mis scrs = Inr rows)))"
proof (cases "f Begin \<or> f Update \<or> f Insert \<or> f Commit")
  case True
  then have "normalize_main f d mis scrs \<lparr> committed = tbl, pending = None \<rparr> =
       (1, None, \<lparr> committed = tbl, pending = None \<rparr>)"
    using normalize_main_cases[of f d mis scrs tbl] by (simp add: fresh_def)
  then show ?thesis using True by auto
next
  case False
  show ?thesis
  proof (cases "rows_cte d mis scrs")
    case (Inl e)
    then have "normalize_main f d mis scrs \<lparr> committed = tbl, pending = None \<rparr> =
       (1, None, \<lparr> committed = tbl, pending = None \<rparr>)"
      using False normalize_main_cases[of f d mis scrs tbl] by (simp add: fresh_def)
    then show ?thesis using Inl by auto
  next
    case (Inr rows)
    then have "normalize_main f d mis scrs \<lparr> committed = tbl, pending = None \<rparr> =
       (0, Some (snd (update_rows rows tbl), snd (insert_rows rows (fst (update_rows rows tbl)))),
        \<lparr> committed = fst (insert_rows rows (fst (update_rows rows tbl))), pending = None \<rparr>)"
      using False normalize_main_cases[of f d mis scrs tbl] by (simp add: fresh_def written_def)
    then show ?thesis using Inr False by auto
  qed
qed

subsection \<open>Fields without a usable price\<close>

lemma value_cents_of_absent:
  "value_cents_of None = Inr None"
  "value_cents_of (Some []) = Inr None"
  "\<forall>c \<in> set txt. c \<notin> set ''0123456789.-'' \<Longrightarrow> value_cents_of (Some txt) = Inr None"
  by (simp_all add: value_cents_of_def NULLIF_empty_def regexp_replace_non_numeric_def
      filter_empty_conv)

lemma rows_cte_positive:
  assumes "rows_cte d mis scrs = Inr rows" and "r \<in> set rows"
  shows "0 < value_cents r"
proof -
  from assms(1) obtain rss where rss: "map (rows_of_item d) (src_cte mis scrs) = map Inr rss"
      "rows = concat rss"
    by (auto simp: rows_cte_def collect_Inr_iff split: sum.splits)
  from assms(2) rss(2) obtain rs where rs: "rs \<in> set rss" "r \<in> set rs" by auto
  then have "Inr rs \<in> set (map (rows_of_item d) (src_cte mis scrs))"
    using rss(1) by simp
  then obtain x where "rows_of_item d x = Inr rs" by auto
  then obtain i vs where "rs = select_rows i d vs"
    by (cases x) (auto simp: rows_of_item_def split: sum.splits)
  then show ?thesis using rs(2) select_rows_const by blast
qed

text \<open>
  Claim C4 at a field holding a lone dash: the replacement keeps the dash, the cast to
  numeric raises, and the run of items 1 and 2 exits with 1 and writes nothing, although
  item 1 alone is normalized to two rows.
\<close>

theorem normalizer_bad_field_aborts_batch:
  "value_cents_of (Some ''-'') = Inl (InvalidNumericSyntax ''-'') \<and>
   normalize_main no_faults 100 [mi1, mi2] [card_a, card_b] (fresh []) = (1, None, fresh []) \<and>
   normalize_main no_faults 100 [mi1] [card_a] (fresh []) = (0, Some (0, 2), fresh rows_a)"
  by (simp add: normalize_main_cases rows_cte_a rows_cte_ab no_faults_def written_def
      update_rows_def insert_rows_def rows_a_def parse_defs)



section \<open>Properties of the sale-comp rollup\<close>

subsection \<open>Percentiles and count\<close>


lemma stats_of_key: "(st_card_key (stats_of k g), st_grade (stats_of k g)) = k"
  by (simp add: stats_of_def)









subsection \<open>Rows of the whole statement\<close>

lemma last_sale_price_latest:
  assumes "group_rows k rs \<noteq> []"
  shows "\<exists>c \<in> set (group_rows k rs).
           last_sale_price k rs = Some (sold_price_usd c) \<and>
           (\<forall>c' \<in> set (group_rows k rs). sold_at c' \<le> sold_at c)"
proof -
  obtain w q where w: "sort_key (\<lambda>r. - sold_at r) (group_rows k rs) = w # q"
      "w \<in> set (group_rows k rs)" "\<forall>s \<in> set (group_rows k rs). - sold_at w \<le> - sold_at s"
    using sort_key_head[OF assms] by blast
  then show ?thesis by (auto simp: last_sale_price_def)
qed

lemma sql_max_Max:
  assumes "xs \<noteq> []"
  shows "sql_max xs = Some (Max (set xs))"
proof (cases xs)
  case Nil
  then show ?thesis using assms by simp
next
  case (Cons a l)
  then show ?thesis unfolding sql_max_def using Max.set_eq_fold[of a l] by simp
qed

lemma sql_max_latest:
  assumes "c \<in> set g" and "\<forall>c' \<in> set g. sold_at c' \<le> sold_at c"
  shows "sql_max (map sold_at g) = Some (sold_at c)"
proof -
  have "map sold_at g \<noteq> []" using assms(1) by auto
  moreover have "Max (set (map sold_at g)) = sold_at c"
    by (rule Max_eqI) (use assms in auto)
  ultimately show ?thesis by (simp add: sql_max_Max)
qed

lemma select_value_fields:
  assumes "select_value today rs s = Inr r"
  shows "mv_card_key r = st_card_key s" "mv_grade r = st_grade s"
    "sales_count_180d r = cnt s" "confidence r = confidence_of (cnt s)"
    "last_sale_at r = st_last_sale_at s"
    "last_sale_usd r = map_option round2 (last_sale_price (st_card_key s, st_grade s) rs)"
  using assms
  by (auto simp: select_value_def numeric_12_2_def split: sum.splits option.splits if_splits)

lemma select_value_cong:
  "last_sale_price (st_card_key s, st_grade s) rs1 = last_sale_price (st_card_key s, st_grade s) rs2 \<Longrightarrow>
   select_value today rs1 s = select_value today rs2 s"
  by (simp add: select_value_def split: sum.splits)

lemma rollup_select_row:
  assumes "rollup_select today now comps = Inr rows" and "r \<in> set rows"
  shows "\<exists>k \<in> set (map group_key (recent now comps)).
           select_value today (recent now comps)
             (stats_of k (group_rows k (recent now comps))) = Inr r"
proof -
  let ?rec = "recent now comps"
  have "map (select_value today ?rec) (stats ?rec) = map Inr rows"
    using assms(1) by (simp add: rollup_select_def collect_Inr_iff)
  then have "Inr r \<in> set (map (select_value today ?rec) (stats ?rec))"
    using assms(2) by simp
  then obtain s where s: "s \<in> set (stats ?rec)" "select_value today ?rec s = Inr r" by auto
  then obtain k where "k \<in> set (map group_key ?rec)" "s = stats_of k (group_rows k ?rec)"
    by (auto simp: stats_def)
  then show ?thesis using s(2) by blast
qed

lemma group_rows_nonempty: "k \<in> set (map group_key rs) \<Longrightarrow> group_rows k rs \<noteq> []"
  by (auto simp: group_rows_def filter_empty_conv)

lemma rollup_select_four:
  "rollup_select 7 100 [sale 40 4, sale 10 1, sale 30 3, sale 20 2] = Inr [row4]"
  by code_simp

lemma rollup_select_tied:
  "rollup_select 7 100 [sale 10 5, sale 20 5] = Inr [tied_row 10]"
  "rollup_select 7 100 [sale 20 5, sale 10 5] = Inr [tied_row 20]"
  by code_simp+


text \<open>
  Claim C7. The confidence grade is A from 10 sales on, B from 5 to 9, C from 2 to 4 and
  D below 2, so that the counts 1, 2, 5 and 10 are graded D, C, B and A; and in every
  row that the statement emits the grade is that of the row's count, which is the number
  of sales of the row's group in the window.
\<close>

theorem rollup_confidence_thresholds:
  "(10 \<le> n1 \<longrightarrow> confidence_of n1 = ''A'') \<and>
   (5 \<le> n2 \<and> n2 < 10 \<longrightarrow> confidence_of n2 = ''B'') \<and>
   (2 \<le> n3 \<and> n3 < 5 \<longrightarrow> confidence_of n3 = ''C'') \<and>
   (n4 < 2 \<longrightarrow> confidence_of n4 = ''D'') \<and>
   map confidence_of [1, 2, 5, 10] = [''D'', ''C'', ''B'', ''A''] \<and>
   (rollup_select today now comps = Inr rows \<and> r \<in> set rows \<longrightarrow>
      confidence r = confidence_of (sales_count_180d r) \<and>
      sales_count_180d r =
        length (group_rows (mv_card_key r, mv_grade r) (recent now comps)))"
proof (intro conjI impI)
  assume a: "rollup_select today now comps = Inr rows \<and> r \<in> set rows"
  then obtain k where k: "select_value today (recent now comps)
             (stats_of k (group_rows k (recent now comps))) = Inr r"
    using rollup_select_row by blast
  note f = select_value_fields[OF k]
  show "confidence r = confidence_of (sales_count_180d r)" using f by simp
  have "(mv_card_key r, mv_grade r) = k" using f by (simp add: stats_of_def)
  then show "sales_count_180d r =
        length (group_rows (mv_card_key r, mv_grade r) (recent now comps))"
    using f by (simp add: stats_of_def)
qed (simp_all add: confidence_of_def)

theorem rollup_confidence_thresholds_witness:
  "(10::nat) \<le> 10 \<and> ((5::nat) \<le> 5 \<and> (5::nat) < 10) \<and> ((2::nat) \<le> 2 \<and> (2::nat) < 5) \<and> (1::nat) < 2 \<and>
   (rollup_select 7 100 [sale 40 4, sale 10 1, sale 30 3, sale 20 2] = Inr [row4] \<and>
    row4 \<in> set [row4]) \<and>
   confidence_of 10 = ''A'' \<and> confidence_of 5 = ''B'' \<and> confidence_of 2 = ''C'' \<and>
   confidence_of 1 = ''D'' \<and>
   confidence row4 = confidence_of (sales_count_180d row4) \<and>
   sales_count_180d row4 =
     length (group_rows (mv_card_key row4, mv_grade row4)
               (recent 100 [sale 40 4, sale 10 1, sale 30 3, sale 20 2]))"
  using rollup_select_four
    rollup_confidence_thresholds
      [of 10 5 2 1 7 100 "[sale 40 4, sale 10 1, sale 30 3, sale 20 2]" "[row4]" row4]
  by simp

subsection \<open>The last sale\<close>

lemma percentile_cont_perm:
  assumes "mset vs = mset ws"
  shows "percentile_cont f vs = percentile_cont f ws"
proof -
  have "sort vs = sort ws" using assms by (metis properties_for_sort sorted_sort mset_sort)
  moreover have "vs = [] \<longleftrightarrow> ws = []" using assms by (metis mset_zero_iff)
  ultimately show ?thesis by (simp add: percentile_cont_def)
qed

lemma sql_max_perm:
  assumes "mset xs = mset ys"
  shows "sql_max xs = sql_max ys"
proof (cases "xs = []")
  case True
  then have "ys = []" using assms by (metis mset_zero_iff)
  then show ?thesis using True by simp
next
  case False
  then have "ys \<noteq> []" using assms by (metis mset_zero_iff)
  moreover have "set xs = set ys" using assms by (rule mset_eq_setD)
  ultimately show ?thesis using False by (simp add: sql_max_Max)
qed

lemma stats_of_perm:
  assumes "mset g1 = mset g2"
  shows "stats_of k g1 = stats_of k g2"
proof -
  have p: "mset (map sold_price_usd g1) = mset (map sold_price_usd g2)"
    and t: "mset (map sold_at g1) = mset (map sold_at g2)"
    using assms by (metis mset_map)+
  have "length g1 = length g2" using assms by (rule mset_eq_length)
  then show ?thesis
    using percentile_cont_perm[OF p] sql_max_perm[OF t] by (simp add: stats_of_def)
qed

lemma group_recent_perm:
  "mset comps1 = mset comps2 \<Longrightarrow>
   mset (group_rows k (recent now comps1)) = mset (group_rows k (recent now comps2))"
  by (simp add: group_rows_def recent_def)

lemma last_sale_price_perm:
  assumes "mset g1 = mset g2" and "g1 = group_rows k rs1" and "g2 = group_rows k rs2"
    and "\<forall>c \<in> set g1. \<forall>c' \<in> set g1.
           (\<forall>x \<in> set g1. sold_at x \<le> sold_at c) \<and> (\<forall>x \<in> set g1. sold_at x \<le> sold_at c') \<longrightarrow>
           sold_price_usd c = sold_price_usd c'"
  shows "last_sale_price k rs1 = last_sale_price k rs2"
proof (cases "g1 = []")
  case True
  then have "g2 = []" using assms(1) by (metis mset_zero_iff)
  then show ?thesis using True assms(2,3) by (simp add: last_sale_price_def)
next
  case False
  then have ne2: "g2 \<noteq> []" using assms(1) by (metis mset_zero_iff)
  have s: "set g1 = set g2" using assms(1) by (rule mset_eq_setD)
  obtain c1 where c1: "c1 \<in> set g1" "last_sale_price k rs1 = Some (sold_price_usd c1)"
      "\<forall>c' \<in> set g1. sold_at c' \<le> sold_at c1"
    using last_sale_price_latest[of k rs1] False assms(2) by auto
  obtain c2 where c2: "c2 \<in> set g2" "last_sale_price k rs2 = Some (sold_price_usd c2)"
      "\<forall>c' \<in> set g2. sold_at c' \<le> sold_at c2"
    using last_sale_price_latest[of k rs2] ne2 assms(3) by auto
  have "sold_price_usd c1 = sold_price_usd c2"
    using assms(4) c1(1,3) c2(1,3) s by blast
  then show ?thesis using c1(2) c2(2) by simp
qed

text \<open>
  Claim C8, as it stands, fails: of two sales of one group with the same, latest
  timestamp and prices 10 and 20, the one presented first is reported.
\<close>

theorem rollup_last_sale_depends_on_row_order:
  "mset [sale 10 5, sale 20 5] = mset [sale 20 5, sale 10 5] \<and>
   rollup_select 7 100 [sale 10 5, sale 20 5] = Inr [tied_row 10] \<and>
   rollup_select 7 100 [sale 20 5, sale 10 5] = Inr [tied_row 20] \<and>
   last_sale_usd (tied_row 10) = Some 10 \<and>
   last_sale_usd (tied_row 20) = Some 20"
  by (simp add: rollup_select_tied tied_row_def)

text \<open>
  Claim C8, amended. In every emitted row the last-sale timestamp and price are those
  of a sale of the group in the window that no sale of the group is later than (the
  price rounded to two decimals). For one set of transactions presented in any order the
  aggregates of a group are the same, and so is the whole emitted row whenever the sales
  of the group with the latest timestamp all have one price, as when there is a single
  most recent sale.
\<close>

theorem rollup_last_sale:
  "(rollup_select today now comps = Inr rows \<and> r \<in> set rows \<longrightarrow>
      (\<exists>c \<in> set (recent now comps).
         group_key c = (mv_card_key r, mv_grade r) \<and>
         (\<forall>c' \<in> set (recent now comps). group_key c' = group_key c \<longrightarrow> sold_at c' \<le> sold_at c) \<and>
         last_sale_at r = Some (sold_at c) \<and>
         last_sale_usd r = Some (round2 (sold_price_usd c)))) \<and>
   (mset comps1 = mset comps2 \<longrightarrow>
      stats_of k (group_rows k (recent now comps1)) =
      stats_of k (group_rows k (recent now comps2)) \<and>
      ((\<forall>c \<in> set (group_rows k (recent now comps1)).
        \<forall>c' \<in> set (group_rows k (recent now comps1)).
           (\<forall>x \<in> set (group_rows k (recent now comps1)). sold_at x \<le> sold_at c) \<and>
           (\<forall>x \<in> set (group_rows k (recent now comps1)). sold_at x \<le> sold_at c') \<longrightarrow>
           sold_price_usd c = sold_price_usd c') \<longrightarrow>
       select_value today (recent now comps1) (stats_of k (group_rows k (recent now comps1))) =
       select_value today (recent now comps2) (stats_of k (group_rows k (recent now comps2)))))"
proof (intro conjI impI)
  assume a: "rollup_select today now comps = Inr rows \<and> r \<in> set rows"
  let ?rec = "recent now comps"
  from a obtain k where k: "k \<in> set (map group_key ?rec)"
      "select_value today ?rec (stats_of k (group_rows k ?rec)) = Inr r"
    using rollup_select_row by blast
  note f = select_value_fields[OF k(2)]
  have key: "(mv_card_key r, mv_grade r) = k" using f by (simp add: stats_of_def)
  obtain c where c: "c \<in> set (group_rows k ?rec)"
      "last_sale_price k ?rec = Some (sold_price_usd c)"
      "\<forall>c' \<in> set (group_rows k ?rec). sold_at c' \<le> sold_at c"
    using last_sale_price_latest[OF group_rows_nonempty[OF k(1)]] by blast
  have 1: "c \<in> set ?rec" "group_key c = (mv_card_key r, mv_grade r)"
    using c(1) key by (simp_all add: group_rows_def)
  have 2: "\<forall>c' \<in> set ?rec. group_key c' = group_key c \<longrightarrow> sold_at c' \<le> sold_at c"
    using c(3) 1(2) key by (simp add: group_rows_def)
  have 3: "last_sale_at r = Some (sold_at c)"
    using f(5) sql_max_latest[OF c(1,3)] by (simp add: stats_of_def)
  have 4: "last_sale_usd r = Some (round2 (sold_price_usd c))"
    using f(6) c(2) by (simp add: stats_of_def)
  show "\<exists>c \<in> set ?rec.
         group_key c = (mv_card_key r, mv_grade r) \<and>
         (\<forall>c' \<in> set ?rec. group_key c' = group_key c \<longrightarrow> sold_at c' \<le> sold_at c) \<and>
         last_sale_at r = Some (sold_at c) \<and>
         last_sale_usd r = Some (round2 (sold_price_usd c))"
    using 1 2 3 4 by blast
next
  assume m: "mset comps1 = mset comps2"
  show st: "stats_of k (group_rows k (recent now comps1)) =
      stats_of k (group_rows k (recent now comps2))"
    using group_recent_perm[OF m] by (rule stats_of_perm)
  assume u: "\<forall>c \<in> set (group_rows k (recent now comps1)).
        \<forall>c' \<in> set (group_rows k (recent now comps1)).
           (\<forall>x \<in> set (group_rows k (recent now comps1)). sold_at x \<le> sold_at c) \<and>
           (\<forall>x \<in> set (group_rows k (recent now comps1)). sold_at x \<le> sold_at c') \<longrightarrow>
           sold_price_usd c = sold_price_usd c'"
  have "last_sale_price k (recent now comps1) = last_sale_price k (recent now comps2)"
    using group_recent_perm[OF m] _ _ u by (rule last_sale_price_perm) simp_all
  then have "select_value today (recent now comps1) (stats_of k (group_rows k (recent now comps2))) =
       select_value today (recent now comps2) (stats_of k (group_rows k (recent now comps2)))"
    by (intro select_value_cong) (simp add: stats_of_key)
  then show "select_value today (recent now comps1) (stats_of k (group_rows k (recent now comps1))) =
       select_value today (recent now comps2) (stats_of k (group_rows k (recent now comps2)))"
    by (simp only: st)
qed

theorem rollup_last_sale_witness:
  "(rollup_select 7 100 [sale 40 4, sale 10 1, sale 30 3, sale 20 2] = Inr [row4] \<and>
    row4 \<in> set [row4]) \<and>
   mset [sale 40 4, sale 10 1, sale 30 3, sale 20 2] =
   mset [sale 20 2, sale 30 3, sale 10 1, sale 40 4] \<and>
   sale 40 4 \<in> set (recent 100 [sale 40 4, sale 10 1, sale 30 3, sale 20 2]) \<and>
   last_sale_at row4 = Some (sold_at (sale 40 4)) \<and>
   last_sale_usd row4 = Some (round2 (sold_price_usd (sale 40 4))) \<and>
   select_value 7 (recent 100 [sale 40 4, sale 10 1, sale 30 3, sale 20 2])
     (stats_of (''base1-4'', ''PSA 9'')
        (group_rows (''base1-4'', ''PSA 9'')
           (recent 100 [sale 40 4, sale 10 1, sale 30 3, sale 20 2]))) =
   select_value 7 (recent 100 [sale 20 2, sale 30 3, sale 10 1, sale 40 4])
     (stats_of (''base1-4'', ''PSA 9'')
        (group_rows (''base1-4'', ''PSA 9'')
           (recent 100 [sale 20 2, sale 30 3, sale 10 1, sale 40 4])))"
proof -
  let ?c1 = "[sale 40 4, sale 10 1, sale 30 3, sale 20 2]"
  let ?c2 = "[sale 20 2, sale 30 3, sale 10 1, sale 40 4]"
  let ?k = "(''base1-4'', ''PSA 9'')"
  have h1: "rollup_select 7 100 ?c1 = Inr [row4] \<and> row4 \<in> set [row4]"
    using rollup_select_four by simp
  have h2: "mset ?c1 = mset ?c2" by (simp add: add.commute add.left_commute)
  have g: "group_rows ?k (recent 100 ?c1) = ?c1"
    by (simp add: group_rows_def recent_def group_key_def sale_def interval_180_days_def)
  have h3: "\<forall>c \<in> set (group_rows ?k (recent 100 ?c1)).
    \<forall>c' \<in> set (group_rows ?k (recent 100 ?c1)).
      (\<forall>x \<in> set (group_rows ?k (recent 100 ?c1)). sold_at x \<le> sold_at c) \<and>
      (\<forall>x \<in> set (group_rows ?k (recent 100 ?c1)). sold_at x \<le> sold_at c') \<longrightarrow>
      sold_price_usd c = sold_price_usd c'"
    unfolding g by (simp add: sale_def)
  note t = rollup_last_sale[of 7 100 ?c1 "[row4]" row4 ?c1 ?c2 ?k]
  from t h2 h3 have a: "select_value 7 (recent 100 ?c1) (stats_of ?k (group_rows ?k (recent 100 ?c1))) =
      select_value 7 (recent 100 ?c2) (stats_of ?k (group_rows ?k (recent 100 ?c2)))"
    by blast
  from t h1 obtain c where c: "c \<in> set (recent 100 ?c1)"
      "\<forall>c' \<in> set (recent 100 ?c1). group_key c' = group_key c \<longrightarrow> sold_at c' \<le> sold_at c"
      "last_sale_at row4 = Some (sold_at c)"
      "last_sale_usd row4 = Some (round2 (sold_price_usd c))"
    by blast
  have r: "recent 100 ?c1 = ?c1" by (simp add: recent_def sale_def interval_180_days_def)
  have "sold_at c = 4" using c(3) by (simp add: row4_def)
  then have "c = sale 40 4" using c(1) unfolding r by (auto simp: sale_def)
  then have b: "sale 40 4 \<in> set (recent 100 ?c1)" "last_sale_at row4 = Some (sold_at (sale 40 4))"
      "last_sale_usd row4 = Some (round2 (sold_price_usd (sale 40 4)))"
    using c by simp_all
  show ?thesis using h1 h2 a b by blast
qed


end
